theory Spec2Isabelle
  imports Main
begin

section \<open>Data model of app.py\<close>

text \<open>
  The three tables of app.py (sessions, reservations, members) as lists of rows in table
  order. Python's unbounded integers are \<open>int\<close>. A \<open>date\<close> is the number of its day, a
  \<open>time\<close> the microsecond of the day (Python's \<open>time\<close> type keeps it within one day), a
  \<open>datetime\<close> the microsecond since day 0, so that \<open>datetime.combine\<close>, the comparison
  of two datetimes and their difference are integer arithmetic.
  The columns \<open>created_at\<close> and \<open>updated_at\<close> are stamps of the wall clock that no rule
  reads; they are left out.
\<close>

datatype status = Active | Canceled | Moved | Attended | No_show

record session =
  s_id :: int
  s_date :: int
  s_time :: int
  capacity :: int
  spots_left :: int
  s_notes :: "string option"
  completed :: bool

record reservation =
  r_id :: int
  user_name :: string
  session_id :: int
  status :: status

record member =
  m_id :: int
  full_name :: string
  credits :: int

record store =
  sessions :: "session list"
  reservations :: "reservation list"
  members :: "member list"

subsection \<open>Outcome of a request\<close>

text \<open>
  Every handler ends in a \<open>flash(message, category)\<close> and a redirect, in a 404 of
  \<open>get_or_404\<close>, in an exception that leaves the handler, or (the GET of move) in a
  rendered page; the \<open>before_request\<close> hook returns nothing and the request proceeds.
  The messages carry the names the specification gives them.
\<close>

datatype category = Success | Info | Error

datatype message =
    SessionClosed | SessionFull | NoCredits | AlreadyBooked | Created
  | Unauthorized | NotActive | TooLateToCancel | SessionPast | CancelDone
  | MoveRefused | TargetPast | TargetFull | MoveDone
  | AlreadyCanceled | Refunded
  | SessionAdded | SessionNotAdded

datatype exn = IntegrityError | AttributeError | ValueError

datatype outcome = Flash category message | Abort404 | Raised exn | Page | Proceed

subsection \<open>Dates and times\<close>

definition DAY :: int where
  "DAY = 86400000000"

definition combine :: "int \<Rightarrow> int \<Rightarrow> int" where
  "combine d t = d * DAY + t"

definition date_of :: "int \<Rightarrow> int" where
  "date_of now = now div DAY"

definition time_of :: "int \<Rightarrow> int" where
  "time_of now = now mod DAY"

definition hours :: "int \<Rightarrow> int" where
  "hours h = h * 3600000000"

text \<open>\<open>Session.is_past\<close>: \<open>datetime.combine(self.date, self.time) < datetime.now()\<close>.\<close>

definition is_past :: "session \<Rightarrow> int \<Rightarrow> bool" where
  "is_past s now = (combine (s_date s) (s_time s) < now)"

subsection \<open>Strings\<close>

text \<open>
  \<open>lower\<close> stands for both \<open>func.lower\<close> of the database and \<open>str.lower\<close>, \<open>strip\<close>
  for \<open>str.strip\<close> of the \<open>user_name\<close> validator; both on the ASCII range.
\<close>

definition lower_char :: "char \<Rightarrow> char" where
  "lower_char c =
     (let n = (of_char c :: nat) in if 65 \<le> n \<and> n \<le> 90 then char_of (n + 32) else c)"

definition lower :: "string \<Rightarrow> string" where
  "lower s = map lower_char s"

definition is_space :: "char \<Rightarrow> bool" where
  "is_space c = (let n = (of_char c :: nat) in (9 \<le> n \<and> n \<le> 13) \<or> (28 \<le> n \<and> n \<le> 32))"

definition strip :: "string \<Rightarrow> string" where
  "strip s = rev (dropWhile is_space (rev (dropWhile is_space s)))"

section \<open>Queries and writes\<close>

text \<open>\<open>Session.query.get_or_404(i)\<close> and \<open>Reservation.query.get_or_404(i)\<close>; \<open>None\<close> is the 404.\<close>

definition get_session :: "store \<Rightarrow> int \<Rightarrow> session option" where
  "get_session st i = find (\<lambda>s. s_id s = i) (sessions st)"

definition get_reservation :: "store \<Rightarrow> int \<Rightarrow> reservation option" where
  "get_reservation st i = find (\<lambda>r. r_id r = i) (reservations st)"

text \<open>\<open>Member.query.filter(func.lower(Member.full_name) == name.lower()).first()\<close>.\<close>

definition find_member :: "store \<Rightarrow> string \<Rightarrow> member option" where
  "find_member st name = find (\<lambda>m. lower (full_name m) = lower name) (members st)"

text \<open>
  \<open>Reservation.query.filter_by(user_name=name, session_id=i, status='active').first()\<close>.
\<close>

definition existing :: "store \<Rightarrow> string \<Rightarrow> int \<Rightarrow> reservation option" where
  "existing st name i =
     find (\<lambda>r. user_name r = name \<and> session_id r = i \<and> status r = Active) (reservations st)"

text \<open>
  A write to an attribute of a loaded object reaches the table as an UPDATE of the row
  with the object's primary key.
\<close>

definition upd_session :: "int \<Rightarrow> (session \<Rightarrow> session) \<Rightarrow> store \<Rightarrow> store" where
  "upd_session i f st =
     st\<lparr>sessions := map (\<lambda>s. if s_id s = i then f s else s) (sessions st)\<rparr>"

definition upd_reservation :: "int \<Rightarrow> (reservation \<Rightarrow> reservation) \<Rightarrow> store \<Rightarrow> store" where
  "upd_reservation i f st =
     st\<lparr>reservations := map (\<lambda>r. if r_id r = i then f r else r) (reservations st)\<rparr>"

definition upd_member :: "int \<Rightarrow> (member \<Rightarrow> member) \<Rightarrow> store \<Rightarrow> store" where
  "upd_member i f st =
     st\<lparr>members := map (\<lambda>m. if m_id m = i then f m else m) (members st)\<rparr>"

text \<open>\<open>x.spots_left += d\<close> on the session object with primary key \<open>i\<close>.\<close>

definition add_spots :: "int \<Rightarrow> int \<Rightarrow> store \<Rightarrow> store" where
  "add_spots i d st = upd_session i (\<lambda>s. s\<lparr>spots_left := spots_left s + d\<rparr>) st"

text \<open>\<open>r.status = v\<close> on the reservation object with primary key \<open>i\<close>.\<close>

definition set_status :: "int \<Rightarrow> status \<Rightarrow> store \<Rightarrow> store" where
  "set_status i v st = upd_reservation i (\<lambda>r. r\<lparr>status := v\<rparr>) st"

text \<open>\<open>m.credits += d\<close> on the member object with primary key \<open>i\<close>.\<close>

definition add_credits :: "int \<Rightarrow> int \<Rightarrow> store \<Rightarrow> store" where
  "add_credits i d st = upd_member i (\<lambda>m. m\<lparr>credits := credits m + d\<rparr>) st"

text \<open>The integer primary key of an inserted row: one more than the largest in the table.\<close>

definition next_id :: "int list \<Rightarrow> int" where
  "next_id ids = foldr max ids 0 + 1"

text \<open>
  \<open>db.session.add(Reservation(user_name=name, session_id=i, status='active'))\<close>; the
  validator of \<open>user_name\<close> strips the name.
\<close>

definition add_reservation :: "string \<Rightarrow> int \<Rightarrow> store \<Rightarrow> store" where
  "add_reservation name i st =
     st\<lparr>reservations := reservations st @
        [\<lparr>r_id = next_id (map r_id (reservations st)), user_name = strip name,
          session_id = i, status = Active\<rparr>]\<rparr>"

definition add_session :: "int \<Rightarrow> int \<Rightarrow> int \<Rightarrow> string option \<Rightarrow> store \<Rightarrow> store" where
  "add_session d t cap n st =
     st\<lparr>sessions := sessions st @
        [\<lparr>s_id = next_id (map s_id (sessions st)), s_date = d, s_time = t, capacity = cap,
          spots_left = cap, s_notes = n, completed = False\<rparr>]\<rparr>"

text \<open>
  The CHECK constraints of the sessions table (\<open>__table_args__\<close>), which the database
  tests on every row a commit writes.
\<close>

definition session_ck :: "session \<Rightarrow> bool" where
  "session_ck s = (capacity s \<ge> 0 \<and> spots_left s \<ge> 0 \<and> spots_left s \<le> capacity s)"

text \<open>
  \<open>db.session.commit()\<close>: the pending state \<open>new\<close> replaces the stored state \<open>old\<close> unless a
  written session row breaks a CHECK constraint; then IntegrityError leaves the handler and
  the stored state stays.
\<close>

definition commit :: "outcome \<Rightarrow> store \<Rightarrow> store \<Rightarrow> outcome \<times> store" where
  "commit ok old new =
     (if list_all (\<lambda>s. s \<in> set (sessions old) \<or> session_ck s) (sessions new)
      then (ok, new) else (Raised IntegrityError, old))"

section \<open>The handlers\<close>

subsection \<open>Settlement sweep\<close>

text \<open>The body of the inner loop of \<open>close_past_sessions_and_apply_attendance\<close>.\<close>

definition attend :: "reservation \<Rightarrow> store \<Rightarrow> store" where
  "attend r st =
     (if status r = Active then
        (let st1 = set_status (r_id r) Attended st in
         case find_member st1 (user_name r) of
           None \<Rightarrow> st1
         | Some m \<Rightarrow> if credits m > 0 then add_credits (m_id m) (- 1) st1 else st1)
      else st)"

text \<open>The body of the outer loop: \<open>s.completed = True\<close>, then \<open>for r in s.reservations\<close>.\<close>

definition close_session :: "session \<Rightarrow> store \<Rightarrow> store" where
  "close_session s st =
     (let st1 = upd_session (s_id s) (\<lambda>x. x\<lparr>completed := True\<rparr>) st in
      fold attend (filter (\<lambda>r. session_id r = s_id s) (reservations st1)) st1)"

definition to_close :: "store \<Rightarrow> int \<Rightarrow> session list" where
  "to_close st now =
     filter (\<lambda>s. \<not> completed s \<and>
                 (s_date s < date_of now \<or> (s_date s = date_of now \<and> s_time s < time_of now)))
       (sessions st)"

definition close_past_sessions_and_apply_attendance :: "store \<Rightarrow> int \<Rightarrow> outcome \<times> store" where
  "close_past_sessions_and_apply_attendance st now =
     (let tc = to_close st now in
      if tc = [] then (Proceed, st)
      else commit Proceed st (fold close_session tc st))"

subsection \<open>Booking operations\<close>

text \<open>
  The handlers take the stored state, the readings of \<open>datetime.now()\<close> they make, the
  \<open>user_name\<close> of the login session and the id of the route, and return the outcome with
  the state stored afterwards. A handler that returns before \<open>commit\<close> stores nothing.
\<close>

definition reserve :: "store \<Rightarrow> int \<Rightarrow> string \<Rightarrow> int \<Rightarrow> outcome \<times> store" where
  "reserve st now user sid =
     (case get_session st sid of
        None \<Rightarrow> (Abort404, st)
      | Some s \<Rightarrow>
          if completed s \<or> is_past s now then (Flash Error SessionClosed, st)
          else if spots_left s \<le> 0 then (Flash Error SessionFull, st)
          else if (case find_member st user of None \<Rightarrow> True | Some m \<Rightarrow> credits m \<le> 0)
            then (Flash Error NoCredits, st)
          else if existing st user sid \<noteq> None then (Flash Info AlreadyBooked, st)
          else commit (Flash Success Created) st
                 (add_spots sid (- 1) (add_reservation user sid st)))"

text \<open>
  \<open>cancel\<close> reads the clock twice: \<open>now\<close> in the 24 hour test, \<open>now2\<close> inside \<open>is_past\<close>.
  \<open>r.session\<close> is the session row of \<open>r.session_id\<close>; were there none, reading its date
  raises AttributeError.
\<close>

definition cancel :: "store \<Rightarrow> int \<Rightarrow> int \<Rightarrow> string \<Rightarrow> int \<Rightarrow> outcome \<times> store" where
  "cancel st now now2 user rid =
     (case get_reservation st rid of
        None \<Rightarrow> (Abort404, st)
      | Some r \<Rightarrow>
          if user_name r \<noteq> user then (Flash Error Unauthorized, st)
          else if status r \<noteq> Active then (Flash Info NotActive, st)
          else (case get_session st (session_id r) of
                  None \<Rightarrow> (Raised AttributeError, st)
                | Some s \<Rightarrow>
                    if combine (s_date s) (s_time s) - now < hours 24
                      then (Flash Error TooLateToCancel, st)
                    else if is_past s now2 then (Flash Error SessionPast, st)
                    else commit (Flash Success CancelDone) st
                           (add_spots (session_id r) 1 (set_status (r_id r) Canceled st))))"

text \<open>
  The request of \<open>move\<close>: a GET, or a POST with \<open>int(request.form.get('target_id'))\<close>,
  \<open>None\<close> when \<open>int\<close> raises (no such field, or not a number).
\<close>

datatype request = GET | POST "int option"

definition move :: "store \<Rightarrow> int \<Rightarrow> string \<Rightarrow> int \<Rightarrow> request \<Rightarrow> outcome \<times> store" where
  "move st now user rid req =
     (case get_reservation st rid of
        None \<Rightarrow> (Abort404, st)
      | Some r \<Rightarrow>
          if user_name r \<noteq> user \<or> status r \<noteq> Active then (Flash Error MoveRefused, st)
          else (case req of
                  GET \<Rightarrow> (Page, st)
                | POST None \<Rightarrow> (Raised ValueError, st)
                | POST (Some target_id) \<Rightarrow>
                    (case get_session st target_id of
                       None \<Rightarrow> (Abort404, st)
                     | Some target \<Rightarrow>
                         if is_past target now then (Flash Error TargetPast, st)
                         else if spots_left target \<le> 0 then (Flash Error TargetFull, st)
                         else (case get_session st (session_id r) of
                                 None \<Rightarrow> (Raised AttributeError, st)
                               | Some src \<Rightarrow>
                                   commit (Flash Success MoveDone) st
                                     (add_spots target_id (- 1)
                                       (add_reservation (user_name r) target_id
                                         (add_spots (session_id r) 1
                                           (set_status (r_id r) Moved st))))))))"

definition admin_cancel_reservation_refund :: "store \<Rightarrow> int \<Rightarrow> outcome \<times> store" where
  "admin_cancel_reservation_refund st rid =
     (case get_reservation st rid of
        None \<Rightarrow> (Abort404, st)
      | Some r \<Rightarrow>
          if status r = Canceled then (Flash Info AlreadyCanceled, st)
          else
            (let st1 = (case find_member st (user_name r) of
                          None \<Rightarrow> st
                        | Some m \<Rightarrow> if status r = Attended then add_credits (m_id m) 1 st else st)
             in if status r = Active then
                  (case get_session st1 (session_id r) of
                     None \<Rightarrow> (Raised AttributeError, st)
                   | Some s \<Rightarrow>
                       commit (Flash Success Refunded) st
                         (set_status (r_id r) Canceled
                            (if \<not> completed s then add_spots (session_id r) 1 st1 else st1)))
                else commit (Flash Success Refunded) st (set_status (r_id r) Canceled st1)))"

text \<open>
  The POST of \<open>admin_sessions\<close>. The form is the parsed date, time, capacity and notes,
  \<open>None\<close> when \<open>strptime\<close> or \<open>int\<close> raises; every exception of the \<open>try\<close> block ends
  in a rollback and the message of failure.
\<close>

definition admin_sessions ::
  "store \<Rightarrow> (int \<times> int \<times> int \<times> string option) option \<Rightarrow> outcome \<times> store" where
  "admin_sessions st form =
     (case form of
        None \<Rightarrow> (Flash Error SessionNotAdded, st)
      | Some (d, t, cap, n) \<Rightarrow>
          (case commit (Flash Success SessionAdded) st (add_session d t cap n st) of
             (Raised e, _) \<Rightarrow> (Flash Error SessionNotAdded, st)
           | res \<Rightarrow> res))"

section \<open>Constraints of the schema and consistency of the ledger\<close>

text \<open>
  What the database keeps by itself: primary keys are unique, the CHECK constraints hold on
  every session row, and the \<open>session_id\<close> of a reservation is the key of a session.
\<close>

definition keys_ok :: "store \<Rightarrow> bool" where
  "keys_ok st = (distinct (map s_id (sessions st)) \<and> distinct (map r_id (reservations st))
                 \<and> distinct (map m_id (members st)))"

definition checks_ok :: "store \<Rightarrow> bool" where
  "checks_ok st = list_all session_ck (sessions st)"

definition refs_ok :: "store \<Rightarrow> bool" where
  "refs_ok st = list_all (\<lambda>r. session_id r \<in> set (map s_id (sessions st))) (reservations st)"

text \<open>The number of active reservations of the session with key \<open>i\<close>.\<close>

definition active_count :: "store \<Rightarrow> int \<Rightarrow> int" where
  "active_count st i =
     int (length (filter (\<lambda>r. session_id r = i \<and> status r = Active) (reservations st)))"

text \<open>Every active reservation holds one of the seats that \<open>spots_left\<close> no longer counts.\<close>

definition seats_ok :: "store \<Rightarrow> bool" where
  "seats_ok st = list_all (\<lambda>s. spots_left s + active_count st (s_id s) \<le> capacity s) (sessions st)"

definition consistent :: "store \<Rightarrow> bool" where
  "consistent st = (keys_ok st \<and> checks_ok st \<and> refs_ok st \<and> seats_ok st)"

text \<open>The bounds of \<open>spots_left\<close> on every session row.\<close>

definition in_bounds :: "store \<Rightarrow> bool" where
  "in_bounds st = list_all (\<lambda>s. 0 \<le> spots_left s \<and> spots_left s \<le> capacity s) (sessions st)"

text \<open>The \<open>time\<close> of every session is a time of day, as Python's type has it.\<close>

definition times_ok :: "store \<Rightarrow> bool" where
  "times_ok st = list_all (\<lambda>s. 0 \<le> s_time s \<and> s_time s < DAY) (sessions st)"

section \<open>What the sweep settles\<close>

text \<open>
  The reservations the two loops of the sweep reach, in the order they reach them: for every
  session to close, its reservations that are active.
\<close>

definition settled :: "store \<Rightarrow> int \<Rightarrow> reservation list" where
  "settled st now =
     concat (map (\<lambda>s. filter (\<lambda>r. session_id r = s_id s \<and> status r = Active) (reservations st))
               (to_close st now))"

text \<open>
  The key of the member that the sweep's lookup by lower-cased name finds for a
  reservation, if any.
\<close>

definition owner_id :: "member list \<Rightarrow> reservation \<Rightarrow> int option" where
  "owner_id ms r = map_option m_id (find (\<lambda>m. lower (full_name m) = lower (user_name r)) ms)"

text \<open>
  A balance \<open>c\<close> after \<open>k\<close> settlements that each take one credit while the balance is
  positive.
\<close>

definition debited :: "int \<Rightarrow> nat \<Rightarrow> int" where
  "debited c k = (if 0 < c then max 0 (c - int k) else c)"

text \<open>
  The members table after the lookup and the conditional decrement of one pass of the inner
  loop, for the \<open>user_name\<close> of the reservation at hand.
\<close>

definition debit :: "string \<Rightarrow> member list \<Rightarrow> member list" where
  "debit name ms =
     (case find (\<lambda>m. lower (full_name m) = lower name) ms of
        None \<Rightarrow> ms
      | Some m \<Rightarrow>
          if credits m > 0
          then map (\<lambda>x. if m_id x = m_id m then x\<lparr>credits := credits x + - 1\<rparr> else x) ms
          else ms)"

section \<open>Sample states\<close>

text \<open>
  A ledger with two sessions at 10:00 on days 10 and 12, two members and one active
  reservation each; the second session is full, the second member has no credit left.
\<close>

definition demo_store :: store where
  "demo_store =
     \<lparr>sessions =
        [\<lparr>s_id = 1, s_date = 10, s_time = 36000000000, capacity = 2, spots_left = 1,
          s_notes = None, completed = False\<rparr>,
         \<lparr>s_id = 2, s_date = 12, s_time = 36000000000, capacity = 1, spots_left = 0,
          s_notes = Some ''Mat'', completed = False\<rparr>],
      reservations =
        [\<lparr>r_id = 1, user_name = ''Ann Lee'', session_id = 1, status = Active\<rparr>,
         \<lparr>r_id = 2, user_name = ''Bob Ray'', session_id = 2, status = Active\<rparr>],
      members =
        [\<lparr>m_id = 1, full_name = ''Ann Lee'', credits = 1\<rparr>,
         \<lparr>m_id = 2, full_name = ''Bob Ray'', credits = 0\<rparr>]\<rparr>"

text \<open>A ledger before any booking: two open sessions with three seats each and one member.\<close>

definition fresh_store :: store where
  "fresh_store =
     \<lparr>sessions =
        [\<lparr>s_id = 1, s_date = 10, s_time = 36000000000, capacity = 3, spots_left = 3,
          s_notes = None, completed = False\<rparr>,
         \<lparr>s_id = 2, s_date = 12, s_time = 36000000000, capacity = 3, spots_left = 3,
          s_notes = None, completed = False\<rparr>],
      reservations = [],
      members = [\<lparr>m_id = 1, full_name = ''Ann Lee'', credits = 1\<rparr>]\<rparr>"

text \<open>The ledger after the member of \<open>fresh_store\<close> has reserved a seat in session 1.\<close>

definition booked_store :: store where
  "booked_store = snd (reserve fresh_store 0 ''Ann Lee'' 1)"

text \<open>The same member has then reserved a seat in session 2 as well.\<close>

definition twice_booked_store :: store where
  "twice_booked_store = snd (reserve booked_store 0 ''Ann Lee'' 2)"

text \<open>The ledger \<open>demo_store\<close> after a sweep on day 11: session 1 is closed and settled.\<close>

definition swept_store :: store where
  "swept_store = snd (close_past_sessions_and_apply_attendance demo_store (combine 11 0))"

section \<open>Basic facts\<close>

lemmas write_defs = upd_session_def upd_reservation_def upd_member_def add_spots_def
  set_status_def add_credits_def add_reservation_def add_session_def

lemma snd_commit_failed: "fst (commit ok old new) \<noteq> ok \<Longrightarrow> snd (commit ok old new) = old"
  by (simp add: commit_def split: if_splits)

lemma next_id_greater: "i \<in> set ids \<Longrightarrow> i < next_id ids"
  by (induction ids) (auto simp: next_id_def)

lemma next_id_fresh: "next_id ids \<notin> set ids"
  using next_id_greater [of "next_id ids" ids] by auto

lemma find_key_map:
  "(\<And>x. key (f x) = key x) \<Longrightarrow>
   find (\<lambda>y. key y = k) (map f xs) = map_option f (find (\<lambda>y. key y = k) xs)"
  by (induction xs) auto

lemma find_key_unique:
  "distinct (map key xs) \<Longrightarrow> find (\<lambda>y. key y = k) xs = Some x \<Longrightarrow> y \<in> set xs \<Longrightarrow> key y = k
   \<Longrightarrow> y = x"
  by (induction xs) (auto split: if_splits simp: find_Some_iff image_iff)

lemma find_key_append_fresh:
  "k \<notin> key ` set xs \<Longrightarrow> find (\<lambda>y. key y = k) (xs @ ys) = find (\<lambda>y. key y = k) ys"
  by (induction xs) auto

lemma commit_ok:
  "list_all (\<lambda>s. s \<in> set (sessions old) \<or> session_ck s) (sessions new)
   \<Longrightarrow> commit ok old new = (ok, new)"
  by (simp add: commit_def)

lemma commit_checks: "checks_ok old \<Longrightarrow> checks_ok (snd (commit ok old new))"
  by (auto simp: commit_def checks_ok_def list_all_iff)

lemma get_session_mem: "get_session st i = Some s \<Longrightarrow> s \<in> set (sessions st) \<and> s_id s = i"
  by (auto simp: get_session_def find_Some_iff)

lemma get_reservation_mem:
  "get_reservation st i = Some r \<Longrightarrow> r \<in> set (reservations st) \<and> r_id r = i"
  by (auto simp: get_reservation_def find_Some_iff)

lemma get_session_unique:
  "keys_ok st \<Longrightarrow> get_session st i = Some s \<Longrightarrow> x \<in> set (sessions st) \<Longrightarrow> s_id x = i \<Longrightarrow> x = s"
  unfolding keys_ok_def get_session_def using find_key_unique [of s_id "sessions st" i s x] by blast

lemma commit_one_row:
  assumes "keys_ok st" "get_session st i = Some s" "session_ck (f s)"
    and "sessions new = map (\<lambda>x. if s_id x = i then f x else x) (sessions st)"
  shows "commit ok st new = (ok, new)"
proof (rule commit_ok)
  show "list_all (\<lambda>s. s \<in> set (sessions st) \<or> session_ck s) (sessions new)"
    unfolding list_all_iff
  proof
    fix y assume "y \<in> set (sessions new)"
    then obtain x where x: "x \<in> set (sessions st)" "y = (if s_id x = i then f x else x)"
      using assms(4) by auto
    show "y \<in> set (sessions st) \<or> session_ck y"
    proof (cases "s_id x = i")
      case True
      then have "x = s" using get_session_unique [OF assms(1,2) x(1)] by simp
      with True x assms(3) show ?thesis by simp
    next
      case False
      with x show ?thesis by simp
    qed
  qed
qed

lemma find_append_case:
  "find P (xs @ ys) = (case find P xs of None \<Rightarrow> find P ys | Some x \<Rightarrow> Some x)"
  by (induction xs) auto

lemma next_id_set_status:
  "next_id (map r_id (reservations (set_status i v st))) = next_id (map r_id (reservations st))"
proof -
  have "map r_id (reservations (set_status i v st)) = map r_id (reservations st)"
    by (simp add: write_defs)
  then show ?thesis by simp
qed

lemma in_bounds_checks: "in_bounds st = checks_ok st"
  by (auto simp: in_bounds_def checks_ok_def session_ck_def list_all_iff)

lemma reserve_checks: "checks_ok st \<Longrightarrow> checks_ok (snd (reserve st now user sid))"
  by (auto simp: reserve_def commit_checks split: option.splits)

lemma cancel_checks: "checks_ok st \<Longrightarrow> checks_ok (snd (cancel st now now2 user rid))"
  by (auto simp: cancel_def commit_checks split: option.splits)

lemma move_checks: "checks_ok st \<Longrightarrow> checks_ok (snd (move st now user rid req))"
  by (auto simp: move_def commit_checks split: option.splits request.splits)

lemma admin_cancel_checks:
  "checks_ok st \<Longrightarrow> checks_ok (snd (admin_cancel_reservation_refund st rid))"
  by (auto simp: admin_cancel_reservation_refund_def Let_def commit_checks split: option.splits)

lemma sweep_checks:
  "checks_ok st \<Longrightarrow> checks_ok (snd (close_past_sessions_and_apply_attendance st now))"
  by (auto simp: close_past_sessions_and_apply_attendance_def Let_def commit_checks)

lemma admin_sessions_checks: "checks_ok st \<Longrightarrow> checks_ok (snd (admin_sessions st form))"
proof (cases form)
  case None
  then show "checks_ok st \<Longrightarrow> ?thesis" by (simp add: admin_sessions_def)
next
  case (Some f)
  obtain d t cap n where f: "f = (d, t, cap, n)" by (cases f) auto
  assume c: "checks_ok st"
  have "snd (admin_sessions st form) = snd (commit (Flash Success SessionAdded) st (add_session d t cap n st))
        \<or> snd (admin_sessions st form) = st"
    by (auto simp: admin_sessions_def Some f commit_def)
  then show ?thesis using c commit_checks [OF c] by auto
qed

lemma reserve_sessions:
  "fst (reserve st now user sid) = Flash Success Created \<Longrightarrow>
   sessions (snd (reserve st now user sid)) =
     map (\<lambda>x. if s_id x = sid then x\<lparr>spots_left := spots_left x - 1\<rparr> else x) (sessions st)"
  by (auto simp: reserve_def commit_def write_defs split: option.splits if_splits)

lemma cancel_sessions:
  "fst (cancel st now now2 user rid) = Flash Success CancelDone \<Longrightarrow>
   \<exists>r. get_reservation st rid = Some r \<and>
     sessions (snd (cancel st now now2 user rid)) =
       map (\<lambda>x. if s_id x = session_id r then x\<lparr>spots_left := spots_left x + 1\<rparr> else x) (sessions st)"
  by (auto simp: cancel_def commit_def write_defs split: option.splits if_splits)

lemma move_sessions:
  "fst (move st now user rid req) = Flash Success MoveDone \<Longrightarrow>
   \<exists>r tid. get_reservation st rid = Some r \<and> req = POST (Some tid) \<and>
     sessions (snd (move st now user rid req)) =
       map (\<lambda>x. x\<lparr>spots_left := spots_left x + (if s_id x = session_id r then 1 else 0)
                                             - (if s_id x = tid then 1 else 0)\<rparr>) (sessions st)"
  by (auto simp: move_def commit_def write_defs split: option.splits if_splits request.splits)

lemma sessions_attend: "sessions (attend r st) = sessions st"
  by (auto simp: attend_def Let_def write_defs split: option.splits)

lemma sessions_fold_attend: "sessions (fold attend rs st) = sessions st"
  by (induction rs arbitrary: st) (auto simp: sessions_attend)

lemma sessions_close_session:
  "sessions (close_session s st) =
     map (\<lambda>x. if s_id x = s_id s then x\<lparr>completed := True\<rparr> else x) (sessions st)"
  by (simp add: close_session_def Let_def sessions_fold_attend write_defs)

lemma sessions_fold_close:
  "sessions (fold close_session tc st) =
     map (\<lambda>x. if s_id x \<in> s_id ` set tc then x\<lparr>completed := True\<rparr> else x) (sessions st)"
proof (induction tc arbitrary: st)
  case Nil
  then show ?case by (simp add: map_idI)
next
  case (Cons s tc)
  show ?case
    by (simp add: Cons.IH sessions_close_session o_def)
qed

lemma to_close_after_sweep: "to_close (fold close_session (to_close st now) st) now = []"
  unfolding to_close_def [of "fold close_session (to_close st now) st"] sessions_fold_close
  by (auto simp: filter_empty_conv to_close_def)

lemma active_count_pos:
  "r \<in> set (reservations st) \<Longrightarrow> status r = Active \<Longrightarrow> 0 < active_count st (session_id r)"
  by (auto simp: active_count_def filter_empty_conv)

lemma find_member_add_credits:
  assumes "find_member st name = Some m"
  shows "find_member (add_credits (m_id m) d st) name = Some (m\<lparr>credits := credits m + d\<rparr>)"
proof -
  let ?f = "\<lambda>x. if m_id x = m_id m then x\<lparr>credits := credits x + d\<rparr> else x"
  have "find (\<lambda>y. lower (full_name y) = lower name) (map ?f (members st))
        = map_option ?f (find (\<lambda>y. lower (full_name y) = lower name) (members st))"
    by (rule find_key_map [where key = "\<lambda>y. lower (full_name y)"]) simp
  then show ?thesis using assms by (simp add: find_member_def write_defs)
qed

lemma members_attend:
  "members (attend r st) = (if status r = Active then debit (user_name r) (members st) else members st)"
  by (auto simp: attend_def Let_def debit_def find_member_def write_defs split: option.splits)

lemma reservations_attend:
  "reservations (attend r st) =
     (if status r = Active
      then map (\<lambda>x. if r_id x = r_id r then x\<lparr>status := Attended\<rparr> else x) (reservations st)
      else reservations st)"
  by (auto simp: attend_def Let_def write_defs split: option.splits)

lemma members_fold_attend:
  "members (fold attend rs st) =
     fold (\<lambda>r. debit (user_name r)) (filter (\<lambda>r. status r = Active) rs) (members st)"
  by (induction rs arbitrary: st) (auto simp: members_attend)

lemma reservations_fold_attend:
  "reservations (fold attend rs st) =
     map (\<lambda>x. if r_id x \<in> r_id ` {r \<in> set rs. status r = Active}
               then x\<lparr>status := Attended\<rparr> else x) (reservations st)"
proof (induction rs arbitrary: st)
  case Nil
  then show ?case by (simp add: map_idI)
next
  case (Cons r rs)
  have img: "r_id ` {x \<in> set (r # rs). status x = Active} =
             (if status r = Active then insert (r_id r) (r_id ` {x \<in> set rs. status x = Active})
              else r_id ` {x \<in> set rs. status x = Active})"
    by auto
  show ?case
    unfolding img by (simp add: Cons.IH reservations_attend o_def)
qed

lemma reservations_close_session:
  assumes d: "distinct (map r_id (reservations st))"
  shows "reservations (close_session s st) =
     map (\<lambda>x. if session_id x = s_id s \<and> status x = Active then x\<lparr>status := Attended\<rparr> else x)
       (reservations st)"
proof -
  have inj: "inj_on r_id (set (reservations st))" using d by (simp add: distinct_map)
  have "reservations (close_session s st) =
     map (\<lambda>x. if r_id x \<in> r_id ` {r \<in> set (filter (\<lambda>r. session_id r = s_id s) (reservations st)).
                                    status r = Active}
               then x\<lparr>status := Attended\<rparr> else x) (reservations st)"
    by (simp add: close_session_def Let_def reservations_fold_attend write_defs)
  also have "\<dots> = map (\<lambda>x. if session_id x = s_id s \<and> status x = Active
                          then x\<lparr>status := Attended\<rparr> else x) (reservations st)"
  proof (rule map_cong [OF refl])
    fix x assume x: "x \<in> set (reservations st)"
    have "r_id x \<in> r_id ` {r \<in> set (filter (\<lambda>r. session_id r = s_id s) (reservations st)).
                                    status r = Active}
          \<longleftrightarrow> session_id x = s_id s \<and> status x = Active"
      using x inj by (auto dest: inj_onD)
    then show "(if r_id x \<in> r_id ` {r \<in> set (filter (\<lambda>r. session_id r = s_id s) (reservations st)).
                                    status r = Active}
               then x\<lparr>status := Attended\<rparr> else x)
             = (if session_id x = s_id s \<and> status x = Active then x\<lparr>status := Attended\<rparr> else x)"
      by simp
  qed
  finally show ?thesis .
qed

lemma members_close_session:
  "members (close_session s st) =
     fold (\<lambda>r. debit (user_name r))
       (filter (\<lambda>r. session_id r = s_id s \<and> status r = Active) (reservations st)) (members st)"
  by (simp add: close_session_def Let_def members_fold_attend write_defs conj_commute)

lemma reservations_fold_close:
  assumes "distinct (map r_id (reservations st))"
  shows "reservations (fold close_session tc st) =
     map (\<lambda>x. if session_id x \<in> s_id ` set tc \<and> status x = Active
               then x\<lparr>status := Attended\<rparr> else x) (reservations st)"
  using assms
proof (induction tc arbitrary: st)
  case Nil
  then show ?case by (simp add: map_idI)
next
  case (Cons s tc)
  have d: "distinct (map r_id (reservations (close_session s st)))"
  proof -
    have "map r_id (reservations (close_session s st)) = map r_id (reservations st)"
      unfolding reservations_close_session [OF Cons.prems] by simp
    then show ?thesis using Cons.prems by simp
  qed
  show ?case
    by (simp add: Cons.IH [OF d] reservations_close_session [OF Cons.prems] o_def)
qed

lemma filter_map_unchanged:
  "(\<And>x. P (f x) = P x) \<Longrightarrow> (\<And>x. P x \<Longrightarrow> f x = x) \<Longrightarrow> filter P (map f xs) = filter P xs"
  by (induction xs) auto

lemma members_fold_close:
  assumes "distinct (map r_id (reservations st))" "distinct (map s_id tc)"
  shows "members (fold close_session tc st) =
     fold (\<lambda>r. debit (user_name r))
       (concat (map (\<lambda>s. filter (\<lambda>r. session_id r = s_id s \<and> status r = Active) (reservations st)) tc))
       (members st)"
  using assms
proof (induction tc arbitrary: st)
  case Nil
  then show ?case by simp
next
  case (Cons s tc)
  have d: "distinct (map r_id (reservations (close_session s st)))"
  proof -
    have "map r_id (reservations (close_session s st)) = map r_id (reservations st)"
      unfolding reservations_close_session [OF Cons.prems(1)] by simp
    then show ?thesis using Cons.prems by simp
  qed
  have same: "\<And>s'. s' \<in> set tc \<Longrightarrow>
      filter (\<lambda>r. session_id r = s_id s' \<and> status r = Active) (reservations (close_session s st))
      = filter (\<lambda>r. session_id r = s_id s' \<and> status r = Active) (reservations st)"
  proof -
    fix s' assume s': "s' \<in> set tc"
    have "s_id s \<notin> set (map s_id tc)" using Cons.prems(2) by simp
    moreover have "s_id s' \<in> set (map s_id tc)" using s' by simp
    ultimately have ne: "s_id s' \<noteq> s_id s" by metis
    show "filter (\<lambda>r. session_id r = s_id s' \<and> status r = Active) (reservations (close_session s st))
      = filter (\<lambda>r. session_id r = s_id s' \<and> status r = Active) (reservations st)"
      unfolding reservations_close_session [OF Cons.prems(1)]
      by (rule filter_map_unchanged) (use ne in auto)
  qed
  have meq: "map (\<lambda>s'. filter (\<lambda>r. session_id r = s_id s' \<and> status r = Active)
                     (reservations (close_session s st))) tc
        = map (\<lambda>s'. filter (\<lambda>r. session_id r = s_id s' \<and> status r = Active) (reservations st)) tc"
    by (rule map_cong [OF refl]) (rule same)
  have d2: "distinct (map s_id tc)" using Cons.prems(2) by simp
  have "members (fold close_session (s # tc) st) = members (fold close_session tc (close_session s st))"
    by simp
  also have "\<dots> = fold (\<lambda>r. debit (user_name r))
       (concat (map (\<lambda>s'. filter (\<lambda>r. session_id r = s_id s' \<and> status r = Active)
                            (reservations (close_session s st))) tc))
       (members (close_session s st))"
    by (rule Cons.IH [OF d d2])
  also have "\<dots> = fold (\<lambda>r. debit (user_name r))
       (concat (map (\<lambda>s'. filter (\<lambda>r. session_id r = s_id s' \<and> status r = Active)
                            (reservations st)) tc))
       (members (close_session s st))"
    by (simp only: meq)
  also have "\<dots> = fold (\<lambda>r. debit (user_name r))
       (concat (map (\<lambda>s'. filter (\<lambda>r. session_id r = s_id s' \<and> status r = Active)
                            (reservations st)) (s # tc)))
       (members st)"
    by (simp add: members_close_session)
  finally show ?case .
qed

lemma owner_id_map:
  "(\<And>x. full_name (h x) = full_name x) \<Longrightarrow> (\<And>x. m_id (h x) = m_id x)
   \<Longrightarrow> owner_id (map h ms) r = owner_id ms r"
  unfolding owner_id_def
  by (induction ms) auto

lemma debit_pointwise:
  assumes d: "distinct (map m_id ms)"
  shows "debit (user_name r) ms =
           map (\<lambda>x. if owner_id ms r = Some (m_id x) \<and> 0 < credits x
                     then x\<lparr>credits := credits x - 1\<rparr> else x) ms"
proof (cases "find (\<lambda>m. lower (full_name m) = lower (user_name r)) ms")
  case None
  then show ?thesis by (simp add: debit_def owner_id_def map_idI)
next
  case (Some m)
  have mm: "m \<in> set ms" using Some by (auto simp: find_Some_iff)
  have inj: "inj_on m_id (set ms)" using d by (simp add: distinct_map)
  have eq: "\<And>x. x \<in> set ms \<Longrightarrow> m_id x = m_id m \<Longrightarrow> x = m"
    using inj mm by (auto dest: inj_onD)
  show ?thesis
  proof (cases "0 < credits m")
    case True
    show ?thesis
      unfolding debit_def Some owner_id_def option.case using True
      by (auto intro!: map_cong dest: eq)
  next
    case False
    have "map (\<lambda>x. if owner_id ms r = Some (m_id x) \<and> 0 < credits x
                     then x\<lparr>credits := credits x - 1\<rparr> else x) ms = ms"
      by (rule map_idI) (use False eq Some in \<open>auto simp: owner_id_def\<close>)
    then show ?thesis using False by (simp add: debit_def Some)
  qed
qed

lemma debited_step:
  "debited (if b \<and> 0 < c then c - 1 else c) k = debited c ((if b then 1 else 0) + k)"
  by (auto simp: debited_def)

lemma fold_debit:
  assumes "distinct (map m_id ms)"
  shows "fold (\<lambda>r. debit (user_name r)) L ms =
           map (\<lambda>m. m\<lparr>credits := debited (credits m)
                        (length (filter (\<lambda>r. owner_id ms r = Some (m_id m)) L))\<rparr>) ms"
  using assms
proof (induction L arbitrary: ms)
  case Nil
  then show ?case by (simp add: debited_def map_idI)
next
  case (Cons r L)
  let ?h = "\<lambda>x. if owner_id ms r = Some (m_id x) \<and> 0 < credits x
                 then x\<lparr>credits := credits x - 1\<rparr> else x"
  have step: "debit (user_name r) ms = map ?h ms" by (rule debit_pointwise [OF Cons.prems])
  have d: "distinct (map m_id (map ?h ms))"
  proof -
    have e: "map m_id (map ?h ms) = map m_id ms" by simp
    show ?thesis unfolding e by (rule Cons.prems)
  qed
  have own: "\<And>r'. owner_id (map ?h ms) r' = owner_id ms r'"
    by (rule owner_id_map) simp_all
  have "fold (\<lambda>r. debit (user_name r)) (r # L) ms = fold (\<lambda>r. debit (user_name r)) L (map ?h ms)"
    by (simp add: step)
  also have "\<dots> = map (\<lambda>m. m\<lparr>credits := debited (credits m)
                        (length (filter (\<lambda>r'. owner_id (map ?h ms) r' = Some (m_id m)) L))\<rparr>) (map ?h ms)"
    by (rule Cons.IH [OF d])
  also have "\<dots> = map (\<lambda>m. m\<lparr>credits := debited (credits m)
                        (length (filter (\<lambda>r'. owner_id ms r' = Some (m_id m)) (r # L)))\<rparr>) ms"
    unfolding own map_map
  proof (rule map_cong [OF refl])
    fix m assume "m \<in> set ms"
    let ?k = "length (filter (\<lambda>r'. owner_id ms r' = Some (m_id m)) L)"
    have "debited (credits (?h m)) ?k
          = debited (credits m) ((if owner_id ms r = Some (m_id m) then 1 else 0) + ?k)"
      using debited_step [of "owner_id ms r = Some (m_id m)" "credits m" ?k] by auto
    then show "((\<lambda>m. m\<lparr>credits := debited (credits m)
                        (length (filter (\<lambda>r'. owner_id ms r' = Some (m_id m)) L))\<rparr>) \<circ> ?h) m
             = m\<lparr>credits := debited (credits m)
                        (length (filter (\<lambda>r'. owner_id ms r' = Some (m_id m)) (r # L)))\<rparr>"
      by auto
  qed
  finally show ?case .
qed

lemma before_iff_past:
  assumes "0 \<le> s_time s" "s_time s < DAY"
  shows "(s_date s < date_of now \<or> (s_date s = date_of now \<and> s_time s < time_of now))
         = is_past s now"
proof -
  have n: "now = date_of now * DAY + time_of now"
    by (simp add: date_of_def time_of_def)
  have t: "0 \<le> time_of now" "time_of now < DAY"
    by (simp_all add: time_of_def DAY_def)
  have "is_past s now = (s_date s * DAY + s_time s < date_of now * DAY + time_of now)"
    using n by (simp add: is_past_def combine_def)
  also have "\<dots> = (s_date s < date_of now \<or> (s_date s = date_of now \<and> s_time s < time_of now))"
    using assms t unfolding DAY_def by auto
  finally show ?thesis by simp
qed

section \<open>Consistency is kept\<close>

text \<open>
  A consistent ledger stays consistent under every operation, whatever its arguments and
  its outcome: keys stay unique, the CHECK constraints hold, every reservation points to a
  session, and the active reservations of a session never outnumber the seats that
  \<open>spots_left\<close> has given away. The states the application reaches from a consistent one are
  therefore consistent.
\<close>

lemma map_key_upd:
  "(\<And>x. key (f x) = key x) \<Longrightarrow> map key (map (\<lambda>x. if P x then f x else x) xs) = map key xs"
  by (induction xs) auto

lemma count_upd:
  "distinct (map key xs) \<Longrightarrow> r \<in> set xs \<Longrightarrow> (\<And>x. key (f x) = key x) \<Longrightarrow>
   int (length (filter P (map (\<lambda>x. if key x = key r then f x else x) xs)))
     = int (length (filter P xs)) - (if P r then 1 else 0) + (if P (f r) then 1 else 0)"
proof (induction xs)
  case Nil
  then show ?case by simp
next
  case (Cons a xs)
  show ?case
  proof (cases "a = r")
    case True
    then have "key r \<notin> key ` set xs" using Cons.prems(1) by simp
    then have "map (\<lambda>x. if key x = key r then f x else x) xs = xs"
      by (intro map_idI) (metis imageI)
    then show ?thesis using True by simp
  next
    case False
    then have r: "r \<in> set xs" using Cons.prems(2) by simp
    then have "key a \<noteq> key r" using Cons.prems(1) by force
    then show ?thesis using Cons.IH [OF _ r Cons.prems(3)] Cons.prems(1)
      by (auto split: if_splits)
  qed
qed

lemma count_map_le:
  "(\<And>x. P (f x) \<Longrightarrow> P x) \<Longrightarrow> length (filter P (map f xs)) \<le> length (filter P xs)"
  by (induction xs) (auto intro: le_SucI)

lemma active_count_set_status:
  assumes d: "distinct (map r_id (reservations st))" and r: "get_reservation st rid = Some r"
  shows "active_count (set_status rid v st) i =
           active_count st i - (if session_id r = i \<and> status r = Active then 1 else 0)
                             + (if session_id r = i \<and> v = Active then 1 else 0)"
proof -
  have m: "r \<in> set (reservations st)" and k: "r_id r = rid"
    using get_reservation_mem [OF r] by simp_all
  show ?thesis
    unfolding active_count_def set_status_def upd_reservation_def
    using count_upd [OF d m, of "\<lambda>x. x\<lparr>status := v\<rparr>" "\<lambda>x. session_id x = i \<and> status x = Active"] k
    by simp
qed

lemma active_count_add_reservation:
  "active_count (add_reservation n j st) i = active_count st i + (if j = i then 1 else 0)"
  by (simp add: active_count_def add_reservation_def)

lemma active_count_add_spots: "active_count (add_spots j d st) i = active_count st i"
  by (simp add: active_count_def write_defs)

lemma active_count_add_credits: "active_count (add_credits j d st) i = active_count st i"
  by (simp add: active_count_def write_defs)

lemma seats_ok_iff:
  "seats_ok st = (\<forall>s \<in> set (sessions st). spots_left s + active_count st (s_id s) \<le> capacity s)"
  by (simp add: seats_ok_def list_all_iff)

lemma refs_ok_iff:
  "refs_ok st = (\<forall>r \<in> set (reservations st). session_id r \<in> s_id ` set (sessions st))"
  by (simp add: refs_ok_def list_all_iff)

lemma ids_add_spots: "map s_id (sessions (add_spots j d st)) = map s_id (sessions st)"
  unfolding add_spots_def upd_session_def by (simp add: map_key_upd)

lemma ids_set_status: "map r_id (reservations (set_status j v st)) = map r_id (reservations st)"
  unfolding set_status_def upd_reservation_def by (simp add: map_key_upd)

lemma sids_set_status:
  "map session_id (reservations (set_status j v st)) = map session_id (reservations st)"
  unfolding set_status_def upd_reservation_def by (simp add: map_key_upd)

lemma ids_add_credits: "map m_id (members (add_credits j d st)) = map m_id (members st)"
  unfolding add_credits_def upd_member_def by (simp add: map_key_upd)

lemma keys_ok_add_spots: "keys_ok (add_spots j d st) = keys_ok st"
  unfolding keys_ok_def ids_add_spots by (simp add: write_defs)

lemma keys_ok_set_status: "keys_ok (set_status j v st) = keys_ok st"
  unfolding keys_ok_def ids_set_status by (simp add: write_defs)

lemma keys_ok_add_credits: "keys_ok (add_credits j d st) = keys_ok st"
  unfolding keys_ok_def ids_add_credits by (simp add: write_defs)

lemma keys_ok_add_reservation: "keys_ok st \<Longrightarrow> keys_ok (add_reservation n j st)"
  using next_id_fresh [of "map r_id (reservations st)"]
  by (simp add: keys_ok_def add_reservation_def)

lemma keys_ok_add_session: "keys_ok st \<Longrightarrow> keys_ok (add_session d t cap n st)"
  using next_id_fresh [of "map s_id (sessions st)"]
  by (simp add: keys_ok_def add_session_def)

lemma refs_ok_add_spots: "refs_ok (add_spots j d st) = refs_ok st"
proof -
  have "set (map s_id (sessions (add_spots j d st))) = set (map s_id (sessions st))"
    by (simp only: ids_add_spots)
  then show ?thesis unfolding refs_ok_def by (simp add: write_defs)
qed

lemma refs_ok_set_status: "refs_ok (set_status j v st) = refs_ok st"
proof -
  have "set (map session_id (reservations (set_status j v st)))
        = set (map session_id (reservations st))"
    by (simp only: sids_set_status)
  then have "session_id ` set (reservations (set_status j v st)) = session_id ` set (reservations st)"
    by simp
  moreover have "sessions (set_status j v st) = sessions st" by (simp add: write_defs)
  ultimately show ?thesis unfolding refs_ok_iff by (auto simp: image_subset_iff [symmetric])
qed

lemma refs_ok_add_credits: "refs_ok (add_credits j d st) = refs_ok st"
  by (simp add: refs_ok_def write_defs)

lemma refs_ok_add_reservation:
  "refs_ok st \<Longrightarrow> j \<in> s_id ` set (sessions st) \<Longrightarrow> refs_ok (add_reservation n j st)"
  by (simp add: refs_ok_def add_reservation_def)

lemma add_spots_zero: "add_spots j 0 st = st"
  by (simp add: write_defs map_idI)

lemma add_credits_zero: "add_credits j 0 st = st"
  by (simp add: write_defs map_idI)

lemma ball_map: "(\<forall>y \<in> set (map g xs). Q y) = (\<forall>x \<in> set xs. Q (g x))"
  by (induction xs) simp_all

lemma seats_ok_add_spots:
  "seats_ok (add_spots j d st) =
     (\<forall>s \<in> set (sessions st).
        spots_left s + (if s_id s = j then d else 0) + active_count st (s_id s) \<le> capacity s)"
proof -
  have "sessions (add_spots j d st) =
          map (\<lambda>s. if s_id s = j then s\<lparr>spots_left := spots_left s + d\<rparr> else s) (sessions st)"
    by (simp add: write_defs)
  then show ?thesis
    unfolding seats_ok_iff active_count_add_spots by (simp only: ball_map) auto
qed

lemma consistentI:
  "keys_ok st \<Longrightarrow> checks_ok st \<Longrightarrow> refs_ok st \<Longrightarrow> seats_ok st \<Longrightarrow> consistent st"
  by (simp add: consistent_def)

lemma reserve_cases:
  "snd (reserve st now user sid) = st \<or>
   (\<exists>s. get_session st sid = Some s \<and>
        snd (reserve st now user sid) = add_spots sid (- 1) (add_reservation user sid st))"
  by (auto simp: reserve_def commit_def split: option.splits)

lemma reserve_consistent:
  assumes c: "consistent st"
  shows "consistent (snd (reserve st now user sid))"
proof -
  have k: "keys_ok st" and ck: "checks_ok st" and rf: "refs_ok st" and se: "seats_ok st"
    using c by (simp_all add: consistent_def)
  let ?new = "add_spots sid (- 1) (add_reservation user sid st)"
  {
    fix s assume s: "get_session st sid = Some s"
      and eq: "snd (reserve st now user sid) = ?new"
    have "keys_ok ?new" using k by (simp add: keys_ok_add_spots keys_ok_add_reservation)
    moreover have "checks_ok ?new" using reserve_checks [OF ck, of now user sid] eq by simp
    moreover have "refs_ok ?new"
    proof -
      have "sid \<in> s_id ` set (sessions st)" using get_session_mem [OF s] by force
      then show ?thesis using rf by (simp add: refs_ok_add_spots refs_ok_add_reservation)
    qed
    moreover have "seats_ok ?new"
      unfolding seats_ok_add_spots active_count_add_reservation
      using se by (auto simp: seats_ok_iff add_reservation_def)
    ultimately have "consistent (snd (reserve st now user sid))"
      unfolding eq by (rule consistentI)
  }
  then show ?thesis using reserve_cases [of st now user sid] c by auto
qed

lemma cancel_cases:
  "snd (cancel st now now2 user rid) = st \<or>
   (\<exists>r s. get_reservation st rid = Some r \<and> status r = Active
        \<and> get_session st (session_id r) = Some s
        \<and> snd (cancel st now now2 user rid) = add_spots (session_id r) 1 (set_status rid Canceled st))"
proof (cases "get_reservation st rid")
  case None
  then show ?thesis by (simp add: cancel_def)
next
  case (Some r)
  have "r_id r = rid" using get_reservation_mem [OF Some] by simp
  then show ?thesis
    by (auto simp: cancel_def Some commit_def split: option.splits)
qed

lemma cancel_consistent:
  assumes c: "consistent st"
  shows "consistent (snd (cancel st now now2 user rid))"
proof -
  have k: "keys_ok st" and ck: "checks_ok st" and rf: "refs_ok st" and se: "seats_ok st"
    using c by (simp_all add: consistent_def)
  have dr: "distinct (map r_id (reservations st))" using k by (simp add: keys_ok_def)
  {
    fix r s assume r: "get_reservation st rid = Some r" and a: "status r = Active"
      and eq: "snd (cancel st now now2 user rid) = add_spots (session_id r) 1 (set_status rid Canceled st)"
    let ?new = "add_spots (session_id r) 1 (set_status rid Canceled st)"
    have "keys_ok ?new" using k by (simp add: keys_ok_add_spots keys_ok_set_status)
    moreover have "checks_ok ?new" using cancel_checks [OF ck, of now now2 user rid] eq by simp
    moreover have "refs_ok ?new" using rf by (simp add: refs_ok_add_spots refs_ok_set_status)
    moreover have "seats_ok ?new"
      unfolding seats_ok_add_spots active_count_set_status [OF dr r]
      using se a by (auto simp: seats_ok_iff write_defs)
    ultimately have "consistent (snd (cancel st now now2 user rid))"
      unfolding eq by (rule consistentI)
  }
  then show ?thesis using cancel_cases [of st now now2 user rid] c by auto
qed

lemma move_cases:
  "snd (move st now user rid req) = st \<or>
   (\<exists>r tid tgt. get_reservation st rid = Some r \<and> status r = Active
        \<and> get_session st tid = Some tgt
        \<and> snd (move st now user rid req) =
            add_spots tid (- 1) (add_reservation (user_name r) tid
               (add_spots (session_id r) 1 (set_status rid Moved st))))"
proof (cases "get_reservation st rid")
  case None
  then show ?thesis by (simp add: move_def)
next
  case (Some r)
  have "r_id r = rid" using get_reservation_mem [OF Some] by simp
  then show ?thesis
    by (auto simp: move_def Some commit_def split: option.splits request.splits)
qed

lemma move_consistent:
  assumes c: "consistent st"
  shows "consistent (snd (move st now user rid req))"
proof -
  have k: "keys_ok st" and ck: "checks_ok st" and rf: "refs_ok st" and se: "seats_ok st"
    using c by (simp_all add: consistent_def)
  have dr: "distinct (map r_id (reservations st))" using k by (simp add: keys_ok_def)
  {
    fix r tid tgt assume r: "get_reservation st rid = Some r" and a: "status r = Active"
      and t: "get_session st tid = Some tgt"
      and eq: "snd (move st now user rid req) =
            add_spots tid (- 1) (add_reservation (user_name r) tid
               (add_spots (session_id r) 1 (set_status rid Moved st)))"
    let ?st1 = "set_status rid Moved st"
    let ?st2 = "add_spots (session_id r) 1 ?st1"
    let ?st3 = "add_reservation (user_name r) tid ?st2"
    let ?new = "add_spots tid (- 1) ?st3"
    have "keys_ok ?new"
      using k by (simp add: keys_ok_add_spots keys_ok_set_status keys_ok_add_reservation)
    moreover have "checks_ok ?new" using move_checks [OF ck, of now user rid req] eq by simp
    moreover have "refs_ok ?new"
    proof -
      have "refs_ok ?st2" using rf by (simp add: refs_ok_add_spots refs_ok_set_status)
      moreover have "tid \<in> s_id ` set (sessions ?st2)"
      proof -
        have "set (map s_id (sessions ?st2)) = set (map s_id (sessions st))"
          by (simp only: ids_add_spots) (simp add: write_defs)
        then show ?thesis using get_session_mem [OF t] by force
      qed
      ultimately show ?thesis by (simp add: refs_ok_add_spots refs_ok_add_reservation)
    qed
    moreover have "seats_ok ?new"
    proof -
      have ac: "\<And>i. active_count ?st3 i =
                 active_count st i - (if session_id r = i then 1 else 0) + (if tid = i then 1 else 0)"
        using a by (simp add: active_count_add_reservation active_count_add_spots
            active_count_set_status [OF dr r])
      have ses: "sessions ?st3 =
                 map (\<lambda>x. if s_id x = session_id r then x\<lparr>spots_left := spots_left x + 1\<rparr> else x)
                   (sessions st)"
        by (simp add: write_defs)
      show ?thesis
        unfolding seats_ok_add_spots ac ses using se by (auto simp: seats_ok_iff)
    qed
    ultimately have "consistent (snd (move st now user rid req))"
      unfolding eq by (rule consistentI)
  }
  then show ?thesis using move_cases [of st now user rid req] c by auto
qed

lemma set_status_add_spots: "set_status i v (add_spots j d st) = add_spots j d (set_status i v st)"
  by (simp add: write_defs)

lemma get_reservation_add_credits: "get_reservation (add_credits j d st) i = get_reservation st i"
  by (simp add: get_reservation_def write_defs)

lemma get_session_add_credits: "get_session (add_credits j d st) i = get_session st i"
  by (simp add: get_session_def write_defs)

lemma admin_cancel_cases:
  "snd (admin_cancel_reservation_refund st rid) = st \<or>
   (\<exists>r e mid c. get_reservation st rid = Some r \<and> (e = 0 \<or> e = 1 \<and> status r = Active)
        \<and> snd (admin_cancel_reservation_refund st rid) =
            add_spots (session_id r) e (set_status rid Canceled (add_credits mid c st)))"
proof (cases "get_reservation st rid")
  case None
  then show ?thesis by (simp add: admin_cancel_reservation_refund_def)
next
  case (Some r)
  have rid: "r_id r = rid" using get_reservation_mem [OF Some] by simp
  let ?st1 = "case find_member st (user_name r) of None \<Rightarrow> st
              | Some m \<Rightarrow> if status r = Attended then add_credits (m_id m) 1 st else st"
  obtain mid c where st1: "?st1 = add_credits mid c st"
  proof (cases "find_member st (user_name r)")
    case None
    then have "?st1 = add_credits 0 0 st" by (simp add: add_credits_zero)
    then show ?thesis by (rule that)
  next
    case (Some m)
    show ?thesis
    proof (cases "status r = Attended")
      case True
      then have "?st1 = add_credits (m_id m) 1 st" using Some by simp
      then show ?thesis by (rule that)
    next
      case False
      then have "?st1 = add_credits 0 0 st" using Some by (simp add: add_credits_zero)
      then show ?thesis by (rule that)
    qed
  qed
  let ?c = "add_credits mid c st"
  have run: "admin_cancel_reservation_refund st rid =
     (if status r = Canceled then (Flash Info AlreadyCanceled, st)
      else if status r = Active then
        (case get_session st (session_id r) of
           None \<Rightarrow> (Raised AttributeError, st)
         | Some s \<Rightarrow> commit (Flash Success Refunded) st
              (set_status rid Canceled (if \<not> completed s then add_spots (session_id r) 1 ?c else ?c)))
      else commit (Flash Success Refunded) st (set_status rid Canceled ?c))"
    unfolding admin_cancel_reservation_refund_def Some option.case Let_def st1 rid
      get_session_add_credits ..
  show ?thesis
  proof (cases "snd (admin_cancel_reservation_refund st rid) = st")
    case True
    then show ?thesis by simp
  next
    case False
    have "\<exists>e. (e = 0 \<or> e = 1 \<and> status r = Active)
        \<and> snd (admin_cancel_reservation_refund st rid) =
            add_spots (session_id r) e (set_status rid Canceled ?c)"
    proof (cases "status r = Active")
      case True
      then obtain s where s: "get_session st (session_id r) = Some s"
        using False run by (cases "get_session st (session_id r)") auto
      show ?thesis
      proof (cases "completed s")
        case c: True
        have "snd (admin_cancel_reservation_refund st rid) = set_status rid Canceled ?c"
          using False True s c run by (auto simp: commit_def split: if_splits)
        then have "snd (admin_cancel_reservation_refund st rid) =
                   add_spots (session_id r) 0 (set_status rid Canceled ?c)"
          by (simp add: add_spots_zero)
        then show ?thesis by blast
      next
        case c: False
        have "snd (admin_cancel_reservation_refund st rid) =
                set_status rid Canceled (add_spots (session_id r) 1 ?c)"
          using False True s c run by (auto simp: commit_def split: if_splits)
        then have "snd (admin_cancel_reservation_refund st rid) =
                   add_spots (session_id r) 1 (set_status rid Canceled ?c)"
          by (simp add: set_status_add_spots)
        then show ?thesis using True by blast
      qed
    next
      case na: False
      have "snd (admin_cancel_reservation_refund st rid) = set_status rid Canceled ?c"
        using False na run by (auto simp: commit_def split: if_splits)
      then have "snd (admin_cancel_reservation_refund st rid) =
                   add_spots (session_id r) 0 (set_status rid Canceled ?c)"
        by (simp add: add_spots_zero)
      then show ?thesis by blast
    qed
    then show ?thesis using Some by blast
  qed
qed

lemma admin_cancel_consistent:
  assumes c: "consistent st"
  shows "consistent (snd (admin_cancel_reservation_refund st rid))"
proof -
  have k: "keys_ok st" and ck: "checks_ok st" and rf: "refs_ok st" and se: "seats_ok st"
    using c by (simp_all add: consistent_def)
  {
    fix r e mid cr
    assume r: "get_reservation st rid = Some r" and e: "e = 0 \<or> e = 1 \<and> status r = Active"
      and eq: "snd (admin_cancel_reservation_refund st rid) =
            add_spots (session_id r) e (set_status rid Canceled (add_credits mid cr st))"
    let ?c = "add_credits mid cr st"
    let ?new = "add_spots (session_id r) e (set_status rid Canceled ?c)"
    have dr: "distinct (map r_id (reservations ?c))"
      using k by (simp add: keys_ok_def write_defs)
    have rc: "get_reservation ?c rid = Some r" using r by (simp add: get_reservation_add_credits)
    have "keys_ok ?new"
      using k by (simp add: keys_ok_add_spots keys_ok_set_status keys_ok_add_credits)
    moreover have "checks_ok ?new" using admin_cancel_checks [OF ck, of rid] eq by simp
    moreover have "refs_ok ?new"
      using rf by (simp add: refs_ok_add_spots refs_ok_set_status refs_ok_add_credits)
    moreover have "seats_ok ?new"
      unfolding seats_ok_add_spots active_count_set_status [OF dr rc] active_count_add_credits
      using se e by (auto simp: seats_ok_iff write_defs)
    ultimately have "consistent (snd (admin_cancel_reservation_refund st rid))"
      unfolding eq by (rule consistentI)
  }
  then show ?thesis using admin_cancel_cases [of st rid] c by auto
qed

lemma sweep_consistent:
  assumes c: "consistent st"
  shows "consistent (snd (close_past_sessions_and_apply_attendance st now))"
proof -
  have k: "keys_ok st" and ck: "checks_ok st" and rf: "refs_ok st" and se: "seats_ok st"
    using c by (simp_all add: consistent_def)
  have ds: "distinct (map s_id (sessions st))" and dr: "distinct (map r_id (reservations st))"
    and dm: "distinct (map m_id (members st))"
    using k by (simp_all add: keys_ok_def)
  let ?tc = "to_close st now"
  let ?new = "fold close_session ?tc st"
  have dtc: "distinct (map s_id ?tc)"
    unfolding to_close_def using ds by (rule distinct_map_filter)
  have sid: "map s_id (sessions ?new) = map s_id (sessions st)"
    unfolding sessions_fold_close by (rule map_key_upd) simp
  have rid: "map r_id (reservations ?new) = map r_id (reservations st)"
    unfolding reservations_fold_close [OF dr] by (rule map_key_upd) simp
  have rsid: "map session_id (reservations ?new) = map session_id (reservations st)"
    unfolding reservations_fold_close [OF dr] by (rule map_key_upd) simp
  have mid: "map m_id (members ?new) = map m_id (members st)"
    unfolding members_fold_close [OF dr dtc] fold_debit [OF dm] by (simp add: o_def)
  have kn: "keys_ok ?new" unfolding keys_ok_def sid rid mid using k by (simp add: keys_ok_def)
  have rn: "refs_ok ?new"
  proof -
    have "session_id ` set (reservations ?new) = session_id ` set (reservations st)"
      using rsid by (metis set_map)
    moreover have "s_id ` set (sessions ?new) = s_id ` set (sessions st)"
      using sid by (metis set_map)
    ultimately show ?thesis using rf unfolding refs_ok_iff by (auto simp: image_subset_iff [symmetric])
  qed
  have ac: "\<And>i. active_count ?new i \<le> active_count st i"
    unfolding active_count_def reservations_fold_close [OF dr]
    by (simp only: of_nat_le_iff, rule count_map_le) (auto split: if_splits)
  have sn: "seats_ok ?new"
    unfolding seats_ok_iff sessions_fold_close
  proof (simp only: ball_map, rule ballI)
    fix x assume x: "x \<in> set (sessions st)"
    have "spots_left x + active_count st (s_id x) \<le> capacity x"
      using se x by (simp add: seats_ok_iff)
    moreover have "active_count ?new (s_id x) \<le> active_count st (s_id x)" by (rule ac)
    ultimately show "spots_left (if s_id x \<in> s_id ` set ?tc then x\<lparr>completed := True\<rparr> else x)
        + active_count ?new (s_id (if s_id x \<in> s_id ` set ?tc then x\<lparr>completed := True\<rparr> else x))
        \<le> capacity (if s_id x \<in> s_id ` set ?tc then x\<lparr>completed := True\<rparr> else x)"
      by auto
  qed
  have "snd (close_past_sessions_and_apply_attendance st now) = st
        \<or> snd (close_past_sessions_and_apply_attendance st now) = ?new"
    by (auto simp: close_past_sessions_and_apply_attendance_def Let_def commit_def)
  moreover have "checks_ok (snd (close_past_sessions_and_apply_attendance st now))"
    by (rule sweep_checks [OF ck])
  ultimately show ?thesis using c kn rn sn by (auto simp: consistent_def)
qed

lemma admin_sessions_consistent:
  assumes c: "consistent st"
  shows "consistent (snd (admin_sessions st form))"
proof (cases form)
  case None
  then show ?thesis using c by (simp add: admin_sessions_def)
next
  case (Some f)
  obtain d t cap n where f: "f = (d, t, cap, n)" by (cases f) auto
  have k: "keys_ok st" and ck: "checks_ok st" and rf: "refs_ok st" and se: "seats_ok st"
    using c by (simp_all add: consistent_def)
  let ?new = "add_session d t cap n st"
  let ?i = "next_id (map s_id (sessions st))"
  have alt: "snd (admin_sessions st form) = st \<or> snd (admin_sessions st form) = ?new"
    by (auto simp: admin_sessions_def Some f commit_def)
  have fresh: "?i \<notin> s_id ` set (sessions st)"
    using next_id_fresh [of "map s_id (sessions st)"] by simp
  have zero: "active_count st ?i = 0"
  proof -
    have "\<And>x. x \<in> set (reservations st) \<Longrightarrow> session_id x \<noteq> ?i"
      using rf fresh unfolding refs_ok_iff by metis
    then show ?thesis by (auto simp: active_count_def filter_empty_conv)
  qed
  have ac: "\<And>i. active_count ?new i = active_count st i"
    by (simp add: active_count_def add_session_def)
  have kn: "keys_ok ?new" by (rule keys_ok_add_session [OF k])
  have rn: "refs_ok ?new" using rf by (auto simp: refs_ok_iff add_session_def)
  have sn: "seats_ok ?new"
    unfolding seats_ok_iff ac using se zero by (auto simp: seats_ok_iff add_session_def)
  have "checks_ok (snd (admin_sessions st form))" by (rule admin_sessions_checks [OF ck])
  then show ?thesis using alt c kn rn sn by (auto simp: consistent_def)
qed

section \<open>Failures store nothing\<close>

text \<open>
  Claim C8. Whenever reserve, cancel or move ends in anything but its message of success
  (a flashed rule violation, a 404, an exception), the state stored afterwards is the state
  before the call. In particular a move of the caller's active reservation to a target that
  is not past and has no spot left ends in TargetFull with the state unchanged: no
  reservation is added and the source reservation stays as it was.
\<close>

theorem no_partial_mutation:
  "(fst (reserve st now user sid) \<noteq> Flash Success Created
      \<longrightarrow> snd (reserve st now user sid) = st)
   \<and> (fst (cancel st now now2 user rid) \<noteq> Flash Success CancelDone
      \<longrightarrow> snd (cancel st now now2 user rid) = st)
   \<and> (fst (move st now user rid req) \<noteq> Flash Success MoveDone
      \<longrightarrow> snd (move st now user rid req) = st)
   \<and> (\<forall>r target. get_reservation st rid = Some r \<and> user_name r = user \<and> status r = Active
          \<and> get_session st tid = Some target \<and> \<not> is_past target now \<and> spots_left target \<le> 0
        \<longrightarrow> move st now user rid (POST (Some tid)) = (Flash Error TargetFull, st))"
proof -
  have r: "fst (reserve st now user sid) \<noteq> Flash Success Created
      \<longrightarrow> snd (reserve st now user sid) = st"
    by (auto simp: reserve_def snd_commit_failed split: option.splits)
  have c: "fst (cancel st now now2 user rid) \<noteq> Flash Success CancelDone
      \<longrightarrow> snd (cancel st now now2 user rid) = st"
    by (auto simp: cancel_def snd_commit_failed split: option.splits)
  have m: "fst (move st now user rid req) \<noteq> Flash Success MoveDone
      \<longrightarrow> snd (move st now user rid req) = st"
    by (auto simp: move_def snd_commit_failed split: option.splits request.splits)
  have f: "\<forall>r target. get_reservation st rid = Some r \<and> user_name r = user \<and> status r = Active
          \<and> get_session st tid = Some target \<and> \<not> is_past target now \<and> spots_left target \<le> 0
        \<longrightarrow> move st now user rid (POST (Some tid)) = (Flash Error TargetFull, st)"
    by (auto simp: move_def)
  from r c m f show ?thesis by blast
qed

theorem no_partial_mutation_witness:
  "snd (reserve demo_store 0 ''Ann Lee'' 1) = demo_store
   \<and> snd (cancel demo_store 0 0 ''Bob Ray'' 1) = demo_store
   \<and> move demo_store 0 ''Ann Lee'' 1 (POST (Some 2)) = (Flash Error TargetFull, demo_store)"
proof -
  have h1: "fst (reserve demo_store 0 ''Ann Lee'' 1) \<noteq> Flash Success Created"
    by code_simp
  have h2: "fst (cancel demo_store 0 0 ''Bob Ray'' 1) \<noteq> Flash Success CancelDone"
    by code_simp
  have h3: "get_reservation demo_store 1
              = Some \<lparr>r_id = 1, user_name = ''Ann Lee'', session_id = 1, status = Active\<rparr>"
    by code_simp
  have h4: "get_session demo_store 2
              = Some \<lparr>s_id = 2, s_date = 12, s_time = 36000000000, capacity = 1, spots_left = 0,
                      s_notes = Some ''Mat'', completed = False\<rparr>"
    by code_simp
  have h5: "\<not> is_past \<lparr>s_id = 2, s_date = 12, s_time = 36000000000, capacity = 1, spots_left = 0,
                      s_notes = Some ''Mat'', completed = False\<rparr> 0"
    by code_simp
  have a: "snd (reserve demo_store 0 ''Ann Lee'' 1) = demo_store"
    using no_partial_mutation [of demo_store 0 "''Ann Lee''" 1] h1 by blast
  have b: "snd (cancel demo_store 0 0 ''Bob Ray'' 1) = demo_store"
    using no_partial_mutation [of demo_store 0 "''Bob Ray''" 1 0 1] h2 by blast
  have c: "move demo_store 0 ''Ann Lee'' 1 (POST (Some 2)) = (Flash Error TargetFull, demo_store)"
    using no_partial_mutation [of demo_store 0 "''Ann Lee''" 1 0 1 GET 2] h3 h4 h5 by simp
  from a b c show ?thesis by blast
qed

section \<open>Cancelling a session that has begun\<close>

text \<open>
  Claim C9. When the caller's active reservation is for a session whose start is before the
  clock reading of the 24 hour test, the difference is negative, the test fires and cancel
  ends in TooLateToCancel with nothing stored. The branch of SessionPast needs a start at
  least 24 hours after the first reading and before the second one, so it is never taken
  when the two readings of the clock within the request are at most 24 hours apart.
\<close>

theorem cancel_never_session_past:
  "(\<forall>r s. get_reservation st rid = Some r \<and> user_name r = user \<and> status r = Active
        \<and> get_session st (session_id r) = Some s \<and> is_past s now
      \<longrightarrow> cancel st now now2 user rid = (Flash Error TooLateToCancel, st))
   \<and> (now2 - now \<le> hours 24 \<longrightarrow> fst (cancel st now now2 user rid) \<noteq> Flash Error SessionPast)"
proof -
  have a: "\<forall>r s. get_reservation st rid = Some r \<and> user_name r = user \<and> status r = Active
        \<and> get_session st (session_id r) = Some s \<and> is_past s now
      \<longrightarrow> cancel st now now2 user rid = (Flash Error TooLateToCancel, st)"
    by (auto simp: cancel_def is_past_def hours_def)
  have b: "now2 - now \<le> hours 24 \<longrightarrow> fst (cancel st now now2 user rid) \<noteq> Flash Error SessionPast"
    by (auto simp: cancel_def is_past_def commit_def split: option.splits)
  from a b show ?thesis by blast
qed

theorem cancel_never_session_past_witness:
  "cancel demo_store (combine 11 0) (combine 11 1) ''Ann Lee'' 1
     = (Flash Error TooLateToCancel, demo_store)
   \<and> fst (cancel demo_store (combine 11 0) (combine 11 1) ''Ann Lee'' 1) \<noteq> Flash Error SessionPast"
proof -
  have h1: "get_reservation demo_store 1
              = Some \<lparr>r_id = 1, user_name = ''Ann Lee'', session_id = 1, status = Active\<rparr>"
    by code_simp
  have h2: "get_session demo_store 1
              = Some \<lparr>s_id = 1, s_date = 10, s_time = 36000000000, capacity = 2, spots_left = 1,
                      s_notes = None, completed = False\<rparr>"
    by code_simp
  have h3: "is_past \<lparr>s_id = 1, s_date = 10, s_time = 36000000000, capacity = 2, spots_left = 1,
                      s_notes = None, completed = False\<rparr> (combine 11 0)"
    by code_simp
  have h4: "combine 11 1 - combine 11 0 \<le> hours 24"
    by code_simp
  show ?thesis
    using cancel_never_session_past [of demo_store 1 "''Ann Lee''" "combine 11 0" "combine 11 1"]
      h1 h2 h3 h4 by simp
qed

section \<open>Reserve\<close>

text \<open>
  Claim C2. For a session that exists, in a store whose keys are unique and whose CHECK
  constraints hold: reserve tests, in this order, that the session is neither completed nor
  past (else SessionClosed), that it has a spot left (else SessionFull), that the member of
  the caller's name is found and has a credit (else NoCredits), and that the caller has no
  active reservation for the session (else AlreadyBooked). It succeeds exactly when all
  four hold; on success the store gains one active reservation for the session and the
  session's spots_left goes down by one, nothing else changes. With a member whose credits
  are 0 reserve never succeeds and stores nothing, and on an open session with a spot left
  the failure is NoCredits.
\<close>

theorem reserve_outcome:
  assumes k: "keys_ok st" and c: "checks_ok st" and s: "get_session st sid = Some s"
  shows "fst (reserve st now user sid) =
           (if completed s \<or> is_past s now then Flash Error SessionClosed
            else if spots_left s \<le> 0 then Flash Error SessionFull
            else if \<not> (\<exists>m. find_member st user = Some m \<and> 0 < credits m) then Flash Error NoCredits
            else if (\<exists>r \<in> set (reservations st).
                       user_name r = user \<and> session_id r = sid \<and> status r = Active)
              then Flash Info AlreadyBooked
            else Flash Success Created)
       \<and> (fst (reserve st now user sid) = Flash Success Created \<longleftrightarrow>
            \<not> completed s \<and> \<not> is_past s now \<and> 0 < spots_left s
            \<and> (\<exists>m. find_member st user = Some m \<and> 0 < credits m)
            \<and> \<not> (\<exists>r \<in> set (reservations st).
                       user_name r = user \<and> session_id r = sid \<and> status r = Active))
       \<and> (fst (reserve st now user sid) = Flash Success Created \<longrightarrow>
            snd (reserve st now user sid) =
              st\<lparr>sessions := map (\<lambda>x. if s_id x = sid then x\<lparr>spots_left := spots_left x - 1\<rparr> else x)
                                (sessions st),
                 reservations := reservations st @
                   [\<lparr>r_id = next_id (map r_id (reservations st)), user_name = strip user,
                     session_id = sid, status = Active\<rparr>]\<rparr>)
       \<and> (\<forall>m. find_member st user = Some m \<and> credits m = 0 \<longrightarrow>
            fst (reserve st now user sid) \<noteq> Flash Success Created
            \<and> snd (reserve st now user sid) = st
            \<and> (\<not> completed s \<and> \<not> is_past s now \<and> 0 < spots_left s
                 \<longrightarrow> fst (reserve st now user sid) = Flash Error NoCredits))"
proof -
  let ?new = "add_spots sid (- 1) (add_reservation user sid st)"
  have ex: "(existing st user sid \<noteq> None) =
            (\<exists>r \<in> set (reservations st). user_name r = user \<and> session_id r = sid \<and> status r = Active)"
    by (auto simp: existing_def find_None_iff)
  have mem: "(case find_member st user of None \<Rightarrow> True | Some m \<Rightarrow> credits m \<le> 0) =
             (\<not> (\<exists>m. find_member st user = Some m \<and> 0 < credits m))"
    by (auto split: option.splits)
  have ck: "session_ck s" using get_session_mem [OF s] c by (auto simp: checks_ok_def list_all_iff)
  have com: "0 < spots_left s \<Longrightarrow> commit (Flash Success Created) st ?new = (Flash Success Created, ?new)"
    by (rule commit_one_row [OF k s, where f = "\<lambda>x. x\<lparr>spots_left := spots_left x + - 1\<rparr>"])
       (use ck in \<open>auto simp: session_ck_def write_defs\<close>)
  have new: "?new = st\<lparr>sessions := map (\<lambda>x. if s_id x = sid then x\<lparr>spots_left := spots_left x - 1\<rparr> else x)
                                (sessions st),
                 reservations := reservations st @
                   [\<lparr>r_id = next_id (map r_id (reservations st)), user_name = strip user,
                     session_id = sid, status = Active\<rparr>]\<rparr>"
    by (simp add: write_defs)
  have out: "reserve st now user sid =
           (if completed s \<or> is_past s now then (Flash Error SessionClosed, st)
            else if spots_left s \<le> 0 then (Flash Error SessionFull, st)
            else if \<not> (\<exists>m. find_member st user = Some m \<and> 0 < credits m) then (Flash Error NoCredits, st)
            else if (\<exists>r \<in> set (reservations st).
                       user_name r = user \<and> session_id r = sid \<and> status r = Active)
              then (Flash Info AlreadyBooked, st)
            else (Flash Success Created, ?new))"
    unfolding reserve_def s option.case mem ex using com by auto
  show ?thesis unfolding out new by auto
qed

theorem reserve_outcome_witness:
  "reserve demo_store 0 ''Bob Ray'' 1 = (Flash Error NoCredits, demo_store)
   \<and> fst (reserve fresh_store 0 ''Ann Lee'' 1) = Flash Success Created
   \<and> snd (reserve fresh_store 0 ''Ann Lee'' 1) =
        fresh_store\<lparr>sessions :=
            map (\<lambda>x. if s_id x = 1 then x\<lparr>spots_left := spots_left x - 1\<rparr> else x)
              (sessions fresh_store),
          reservations := reservations fresh_store @
            [\<lparr>r_id = next_id (map r_id (reservations fresh_store)), user_name = strip ''Ann Lee'',
              session_id = 1, status = Active\<rparr>]\<rparr>"
proof -
  have k: "keys_ok demo_store" and c: "checks_ok demo_store"
    by code_simp+
  have s: "get_session demo_store 1
             = Some \<lparr>s_id = 1, s_date = 10, s_time = 36000000000, capacity = 2, spots_left = 1,
                     s_notes = None, completed = False\<rparr>"
    by code_simp
  have m: "find_member demo_store ''Bob Ray'' = Some \<lparr>m_id = 2, full_name = ''Bob Ray'', credits = 0\<rparr>"
    by code_simp
  have p: "\<not> is_past \<lparr>s_id = 1, s_date = 10, s_time = 36000000000, capacity = 2, spots_left = 1,
                     s_notes = None, completed = False\<rparr> 0"
    by code_simp
  have a: "reserve demo_store 0 ''Bob Ray'' 1 = (Flash Error NoCredits, demo_store)"
    using reserve_outcome [OF k c s, of 0 "''Bob Ray''"] m p by (simp add: prod_eq_iff)
  have k': "keys_ok fresh_store" and c': "checks_ok fresh_store"
    by code_simp+
  have s': "get_session fresh_store 1
             = Some \<lparr>s_id = 1, s_date = 10, s_time = 36000000000, capacity = 3, spots_left = 3,
                     s_notes = None, completed = False\<rparr>"
    by code_simp
  have ok: "fst (reserve fresh_store 0 ''Ann Lee'' 1) = Flash Success Created"
    by code_simp
  show ?thesis
    using a ok reserve_outcome [OF k' c' s', of 0 "''Ann Lee''"] by blast
qed

section \<open>Reserve, then cancel\<close>

text \<open>
  Claim C7. When reserve succeeds and cancel of the reservation it created (the row with the
  key reserve assigned) then succeeds, whatever the clock readings and the caller that made
  cancel succeed, the sessions table is again what it was before reserve: the session's
  spots_left went down by one and came back to its value before reserve.
\<close>

theorem reserve_then_cancel:
  assumes r: "reserve st now user sid = (Flash Success Created, st1)"
    and c: "cancel st1 now1 now2 user2 (next_id (map r_id (reservations st))) = (Flash Success CancelDone, st2)"
  shows "sessions st2 = sessions st
         \<and> map_option spots_left (get_session st2 sid) = map_option spots_left (get_session st sid)
         \<and> (\<exists>s. get_session st sid = Some s
                \<and> get_session st1 sid = Some (s\<lparr>spots_left := spots_left s - 1\<rparr>)
                \<and> get_session st2 sid = Some s)"
proof -
  let ?rid = "next_id (map r_id (reservations st))"
  let ?new = "\<lparr>r_id = ?rid, user_name = strip user, session_id = sid, status = Active\<rparr>"
  obtain s where s: "get_session st sid = Some s"
    using r by (auto simp: reserve_def split: option.splits)
  have st1: "st1 = add_spots sid (- 1) (add_reservation user sid st)"
    using r by (auto simp: reserve_def s commit_def split: if_splits)
  have fresh: "?rid \<notin> r_id ` set (reservations st)"
    using next_id_fresh [of "map r_id (reservations st)"] by simp
  have g: "get_reservation st1 ?rid = Some ?new"
    unfolding get_reservation_def st1 using find_key_append_fresh [OF fresh, of "[?new]"]
    by (simp add: write_defs)
  have s1: "get_session st1 sid = Some (s\<lparr>spots_left := spots_left s - 1\<rparr>)"
    using s get_session_mem [OF s] unfolding get_session_def st1
    by (simp add: write_defs find_key_map [where key = s_id])
  have st2: "st2 = add_spots sid 1 (set_status ?rid Canceled st1)"
    using c by (auto simp: cancel_def g s1 commit_def split: if_splits)
  have eq: "sessions st2 = sessions st"
    unfolding st2 st1 by (auto simp: write_defs intro!: map_idI)
  have s2: "get_session st2 sid = Some s"
    using s eq by (simp add: get_session_def)
  from eq s s1 s2 show ?thesis by simp
qed

theorem reserve_then_cancel_witness:
  "sessions (snd (cancel (snd (reserve fresh_store 0 ''Ann Lee'' 1)) 0 0 ''Ann Lee''
                    (next_id (map r_id (reservations fresh_store)))))
     = sessions fresh_store"
proof -
  have r: "reserve fresh_store 0 ''Ann Lee'' 1
             = (Flash Success Created, snd (reserve fresh_store 0 ''Ann Lee'' 1))"
    by code_simp
  have c: "cancel (snd (reserve fresh_store 0 ''Ann Lee'' 1)) 0 0 ''Ann Lee''
             (next_id (map r_id (reservations fresh_store)))
           = (Flash Success CancelDone,
              snd (cancel (snd (reserve fresh_store 0 ''Ann Lee'' 1)) 0 0 ''Ann Lee''
                     (next_id (map r_id (reservations fresh_store)))))"
    by code_simp
  show ?thesis using reserve_then_cancel [OF r c] by blast
qed

section \<open>Move\<close>

text \<open>
  Claim C6. A successful POST of move marks the original reservation as moved, adds 1 to
  the spots_left of its session, appends a new active reservation for the target and takes
  1 from the spots_left of the target; members are untouched. The occupied seats
  (capacity - spots_left) of source and target add up to the same number before and after.
  When source and target are different sessions the source ends one higher and the target
  one lower; when they are the same row the two writes cancel.
\<close>

theorem move_conserves_seats:
  assumes m: "move st now user rid (POST (Some tid)) = (Flash Success MoveDone, st')"
  shows "\<exists>r src tgt src' tgt'.
           get_reservation st rid = Some r \<and> get_session st (session_id r) = Some src
         \<and> get_session st tid = Some tgt
         \<and> reservations st' =
             map (\<lambda>x. if r_id x = rid then x\<lparr>status := Moved\<rparr> else x) (reservations st) @
               [\<lparr>r_id = next_id (map r_id (reservations st)), user_name = strip (user_name r),
                 session_id = tid, status = Active\<rparr>]
         \<and> get_reservation st' rid = Some (r\<lparr>status := Moved\<rparr>)
         \<and> sessions st' =
             map (\<lambda>x. x\<lparr>spots_left := spots_left x + (if s_id x = session_id r then 1 else 0)
                                                   - (if s_id x = tid then 1 else 0)\<rparr>) (sessions st)
         \<and> members st' = members st
         \<and> get_session st' (session_id r) = Some src' \<and> get_session st' tid = Some tgt'
         \<and> (capacity src' - spots_left src') + (capacity tgt' - spots_left tgt')
             = (capacity src - spots_left src) + (capacity tgt - spots_left tgt)
         \<and> (session_id r \<noteq> tid \<longrightarrow>
               spots_left src' = spots_left src + 1 \<and> spots_left tgt' = spots_left tgt - 1)"
proof -
  obtain r where r: "get_reservation st rid = Some r"
    using m by (auto simp: move_def split: option.splits)
  obtain tgt where tgt: "get_session st tid = Some tgt"
    using m r by (auto simp: move_def split: option.splits if_splits)
  obtain src where src: "get_session st (session_id r) = Some src"
    using m r tgt by (auto simp: move_def split: option.splits if_splits)
  let ?f = "\<lambda>x. x\<lparr>spots_left := spots_left x + (if s_id x = session_id r then 1 else 0)
                                        - (if s_id x = tid then 1 else 0)\<rparr>"
  have st': "st' = add_spots tid (- 1) (add_reservation (user_name r) tid
                     (add_spots (session_id r) 1 (set_status (r_id r) Moved st)))"
    using m by (auto simp: move_def r tgt src commit_def split: if_splits)
  have rid: "r_id r = rid" using get_reservation_mem [OF r] by simp
  have res: "reservations st' =
             map (\<lambda>x. if r_id x = rid then x\<lparr>status := Moved\<rparr> else x) (reservations st) @
               [\<lparr>r_id = next_id (map r_id (reservations st)), user_name = strip (user_name r),
                 session_id = tid, status = Active\<rparr>]"
    unfolding st' using next_id_set_status [of rid Moved st] by (simp add: write_defs rid o_def)
  have ses: "sessions st' = map ?f (sessions st)"
    unfolding st' by (auto simp: write_defs)
  have mem: "members st' = members st"
    unfolding st' by (simp add: write_defs)
  have key: "\<And>x. s_id (?f x) = s_id x" by simp
  have g: "\<And>i. get_session st' i = map_option ?f (get_session st i)"
    unfolding get_session_def ses by (rule find_key_map) simp
  have gr: "get_reservation st' rid = Some (r\<lparr>status := Moved\<rparr>)"
  proof -
    have "find (\<lambda>y. r_id y = rid)
            (map (\<lambda>x. if r_id x = rid then x\<lparr>status := Moved\<rparr> else x) (reservations st))
          = map_option (\<lambda>x. if r_id x = rid then x\<lparr>status := Moved\<rparr> else x)
              (find (\<lambda>y. r_id y = rid) (reservations st))"
      by (rule find_key_map) simp
    then show ?thesis
      using r rid unfolding get_reservation_def res by (simp add: find_append_case)
  qed
  have s1: "s_id src = session_id r" and s2: "s_id tgt = tid"
    using get_session_mem [OF src] get_session_mem [OF tgt] by simp_all
  have same: "session_id r = tid \<Longrightarrow> src = tgt" using src tgt by simp
  show ?thesis
    apply (rule exI [of _ r], rule exI [of _ src], rule exI [of _ tgt])
    apply (rule exI [of _ "?f src"], rule exI [of _ "?f tgt"])
    using r src tgt res ses mem gr s1 s2 same by (simp add: g)
qed

theorem move_conserves_seats_witness:
  "\<exists>src tgt src' tgt'.
      get_session booked_store 1 = Some src \<and> get_session booked_store 2 = Some tgt
    \<and> get_session (snd (move booked_store 0 ''Ann Lee'' 1 (POST (Some 2)))) 1 = Some src'
    \<and> get_session (snd (move booked_store 0 ''Ann Lee'' 1 (POST (Some 2)))) 2 = Some tgt'
    \<and> (capacity src' - spots_left src') + (capacity tgt' - spots_left tgt')
        = (capacity src - spots_left src) + (capacity tgt - spots_left tgt)
    \<and> spots_left src' = spots_left src + 1 \<and> spots_left tgt' = spots_left tgt - 1"
proof -
  have m: "move booked_store 0 ''Ann Lee'' 1 (POST (Some 2))
             = (Flash Success MoveDone, snd (move booked_store 0 ''Ann Lee'' 1 (POST (Some 2))))"
    by code_simp
  have r: "get_reservation booked_store 1
             = Some \<lparr>r_id = 1, user_name = ''Ann Lee'', session_id = 1, status = Active\<rparr>"
    by code_simp
  show ?thesis using move_conserves_seats [OF m] unfolding r by auto
qed

section \<open>Bounds of spots_left\<close>

text \<open>
  Claim C1. If every session has \<open>0 \<le> spots_left \<le> capacity\<close>, then so has every session
  of the state stored after reserve, cancel, move, the admin's cancel with refund, the
  settlement sweep and the creation of a session, whatever their arguments and outcome (a
  commit that would write a session row outside the bounds is refused by the CHECK
  constraints and stores nothing). A successful reserve takes exactly 1 from the spots_left
  of its session, a successful cancel adds exactly 1 to that of the reservation's session, a
  successful move adds 1 for the source and takes 1 for the target; no other session row
  changes.
\<close>

theorem spots_left_bounds:
  assumes b: "in_bounds st"
  shows "in_bounds (snd (reserve st now user sid))
       \<and> in_bounds (snd (cancel st now now2 user rid))
       \<and> in_bounds (snd (move st now user rid req))
       \<and> in_bounds (snd (admin_cancel_reservation_refund st rid))
       \<and> in_bounds (snd (close_past_sessions_and_apply_attendance st now))
       \<and> in_bounds (snd (admin_sessions st form))
       \<and> (fst (reserve st now user sid) = Flash Success Created \<longrightarrow>
            sessions (snd (reserve st now user sid)) =
              map (\<lambda>x. if s_id x = sid then x\<lparr>spots_left := spots_left x - 1\<rparr> else x) (sessions st))
       \<and> (fst (cancel st now now2 user rid) = Flash Success CancelDone \<longrightarrow>
            (\<exists>r. get_reservation st rid = Some r \<and>
               sessions (snd (cancel st now now2 user rid)) =
                 map (\<lambda>x. if s_id x = session_id r then x\<lparr>spots_left := spots_left x + 1\<rparr> else x)
                   (sessions st)))
       \<and> (fst (move st now user rid req) = Flash Success MoveDone \<longrightarrow>
            (\<exists>r tid. get_reservation st rid = Some r \<and> req = POST (Some tid) \<and>
               sessions (snd (move st now user rid req)) =
                 map (\<lambda>x. x\<lparr>spots_left := spots_left x + (if s_id x = session_id r then 1 else 0)
                                                       - (if s_id x = tid then 1 else 0)\<rparr>)
                   (sessions st)))"
proof -
  have c: "checks_ok st" using b by (simp add: in_bounds_checks)
  show ?thesis
    unfolding in_bounds_checks
  proof (intro conjI impI)
    show "checks_ok (snd (reserve st now user sid))" by (rule reserve_checks [OF c])
    show "checks_ok (snd (cancel st now now2 user rid))" by (rule cancel_checks [OF c])
    show "checks_ok (snd (move st now user rid req))" by (rule move_checks [OF c])
    show "checks_ok (snd (admin_cancel_reservation_refund st rid))"
      by (rule admin_cancel_checks [OF c])
    show "checks_ok (snd (close_past_sessions_and_apply_attendance st now))"
      by (rule sweep_checks [OF c])
    show "checks_ok (snd (admin_sessions st form))" by (rule admin_sessions_checks [OF c])
  qed (erule reserve_sessions cancel_sessions move_sessions)+
qed

theorem spots_left_bounds_witness:
  "in_bounds (snd (reserve demo_store 0 ''Ann Lee'' 2))
   \<and> in_bounds (snd (cancel demo_store 0 0 ''Ann Lee'' 1))
   \<and> in_bounds (snd (move demo_store 0 ''Bob Ray'' 2 (POST (Some 1))))
   \<and> in_bounds (snd (admin_cancel_reservation_refund demo_store 1))
   \<and> in_bounds (snd (close_past_sessions_and_apply_attendance demo_store (combine 11 0)))
   \<and> in_bounds (snd (admin_sessions demo_store (Some (14, 0, 3, None))))"
proof -
  have b: "in_bounds demo_store" by code_simp
  have x: "in_bounds (snd (reserve demo_store 0 ''Ann Lee'' 2))
     \<and> in_bounds (snd (cancel demo_store 0 0 ''Ann Lee'' 1))
     \<and> in_bounds (snd (admin_cancel_reservation_refund demo_store 1))
     \<and> in_bounds (snd (admin_sessions demo_store (Some (14, 0, 3, None))))"
    using spots_left_bounds [OF b, where now = 0 and user = "''Ann Lee''" and sid = 2
        and ?now2.0 = 0 and rid = 1 and form = "Some (14, 0, 3, None)"]
    by blast
  have y: "in_bounds (snd (move demo_store 0 ''Bob Ray'' 2 (POST (Some 1))))"
    using spots_left_bounds [OF b, where now = 0 and user = "''Bob Ray''" and rid = 2
        and req = "POST (Some 1)"]
    by blast
  have z: "in_bounds (snd (close_past_sessions_and_apply_attendance demo_store (combine 11 0)))"
    using spots_left_bounds [OF b, where now = "combine 11 0"] by blast
  from x y z show ?thesis by blast
qed

section \<open>Move does not look for an existing booking\<close>

text \<open>
  Claim C10. From a ledger without reservations the member reserves a seat in session 1 and
  one in session 2 (both succeed; a second reserve for session 2 is refused as
  AlreadyBooked). The state is consistent. Moving the reservation of session 1 to session 2
  succeeds, and afterwards the member holds two active reservations for session 2, a state
  in which reserve for session 2 still answers AlreadyBooked. Move accepts the source
  session as its target too.
\<close>

theorem move_allows_double_booking:
  "fst (reserve fresh_store 0 ''Ann Lee'' 1) = Flash Success Created
   \<and> fst (reserve booked_store 0 ''Ann Lee'' 2) = Flash Success Created
   \<and> consistent twice_booked_store
   \<and> existing twice_booked_store ''Ann Lee'' 2
       = Some \<lparr>r_id = 2, user_name = ''Ann Lee'', session_id = 2, status = Active\<rparr>
   \<and> fst (reserve twice_booked_store 0 ''Ann Lee'' 2) = Flash Info AlreadyBooked
   \<and> fst (move twice_booked_store 0 ''Ann Lee'' 1 (POST (Some 2))) = Flash Success MoveDone
   \<and> filter (\<lambda>r. user_name r = ''Ann Lee'' \<and> session_id r = 2 \<and> status r = Active)
         (reservations (snd (move twice_booked_store 0 ''Ann Lee'' 1 (POST (Some 2)))))
       = [\<lparr>r_id = 2, user_name = ''Ann Lee'', session_id = 2, status = Active\<rparr>,
          \<lparr>r_id = 3, user_name = ''Ann Lee'', session_id = 2, status = Active\<rparr>]
   \<and> fst (reserve (snd (move twice_booked_store 0 ''Ann Lee'' 1 (POST (Some 2)))) 0 ''Ann Lee'' 2)
       = Flash Info AlreadyBooked
   \<and> fst (move booked_store 0 ''Ann Lee'' 1 (POST (Some 1))) = Flash Success MoveDone"
  by code_simp

theorem move_allows_double_booking_witness:
  "fst (move twice_booked_store 0 ''Ann Lee'' 1 (POST (Some 2))) = Flash Success MoveDone
   \<and> length (filter (\<lambda>r. user_name r = ''Ann Lee'' \<and> session_id r = 2 \<and> status r = Active)
         (reservations (snd (move twice_booked_store 0 ''Ann Lee'' 1 (POST (Some 2)))))) = 2"
  using move_allows_double_booking by simp

section \<open>The settlement sweep, run twice\<close>

text \<open>
  Claim C4. For every store and every clock reading, the state stored by a second run of
  the sweep at the same reading is the state stored by the first run; when the first run
  went through, the second finds no session to close and changes nothing.
\<close>

theorem sweep_idempotent:
  "snd (close_past_sessions_and_apply_attendance
          (snd (close_past_sessions_and_apply_attendance st now)) now)
     = snd (close_past_sessions_and_apply_attendance st now)
   \<and> (fst (close_past_sessions_and_apply_attendance st now) = Proceed \<longrightarrow>
        close_past_sessions_and_apply_attendance
          (snd (close_past_sessions_and_apply_attendance st now)) now
        = (Proceed, snd (close_past_sessions_and_apply_attendance st now)))"
proof (cases "to_close st now = []")
  case True
  then show ?thesis by (simp add: close_past_sessions_and_apply_attendance_def)
next
  case False
  let ?new = "fold close_session (to_close st now) st"
  have first: "close_past_sessions_and_apply_attendance st now = commit Proceed st ?new"
    using False by (simp add: close_past_sessions_and_apply_attendance_def)
  have again: "close_past_sessions_and_apply_attendance ?new now = (Proceed, ?new)"
    by (simp add: close_past_sessions_and_apply_attendance_def to_close_after_sweep)
  show ?thesis
  proof (cases "commit Proceed st ?new = (Proceed, ?new)")
    case True
    then show ?thesis by (simp add: first again)
  next
    case False
    then have "commit Proceed st ?new = (Raised IntegrityError, st)"
      by (auto simp: commit_def)
    then show ?thesis by (simp add: first)
  qed
qed

theorem sweep_idempotent_witness:
  "close_past_sessions_and_apply_attendance
     (snd (close_past_sessions_and_apply_attendance demo_store (combine 11 0))) (combine 11 0)
   = (Proceed, snd (close_past_sessions_and_apply_attendance demo_store (combine 11 0)))
   \<and> snd (close_past_sessions_and_apply_attendance demo_store (combine 11 0)) \<noteq> demo_store"
proof -
  have f: "fst (close_past_sessions_and_apply_attendance demo_store (combine 11 0)) = Proceed"
    by code_simp
  have n: "snd (close_past_sessions_and_apply_attendance demo_store (combine 11 0)) \<noteq> demo_store"
    by code_simp
  show ?thesis using sweep_idempotent [of demo_store "combine 11 0"] f n by blast
qed

section \<open>The admin's cancel with refund\<close>

text \<open>
  Claim C5. In a consistent ledger, for a reservation that exists: when its status is
  already canceled the handler flashes AlreadyCanceled as information and stores nothing.
  Otherwise it succeeds and the reservation becomes canceled; when the status was attended
  the member found by the reservation's name gets one credit back, otherwise no member
  changes; when the status was active and the session is not completed the session's
  spots_left goes up by one, otherwise no session changes. So the refund of an attended
  reservation of a completed session returns the credit and leaves spots_left as it was.
\<close>

theorem admin_cancel_refund:
  assumes c: "consistent st" and r: "get_reservation st rid = Some r"
  shows "(status r = Canceled \<longrightarrow>
            admin_cancel_reservation_refund st rid = (Flash Info AlreadyCanceled, st))
       \<and> (status r \<noteq> Canceled \<longrightarrow>
            fst (admin_cancel_reservation_refund st rid) = Flash Success Refunded
          \<and> reservations (snd (admin_cancel_reservation_refund st rid)) =
              map (\<lambda>x. if r_id x = rid then x\<lparr>status := Canceled\<rparr> else x) (reservations st)
          \<and> get_reservation (snd (admin_cancel_reservation_refund st rid)) rid
              = Some (r\<lparr>status := Canceled\<rparr>)
          \<and> (\<exists>s. get_session st (session_id r) = Some s
              \<and> sessions (snd (admin_cancel_reservation_refund st rid)) =
                  (if status r = Active \<and> \<not> completed s
                   then map (\<lambda>x. if s_id x = session_id r then x\<lparr>spots_left := spots_left x + 1\<rparr>
                                  else x) (sessions st)
                   else sessions st)
              \<and> get_session (snd (admin_cancel_reservation_refund st rid)) (session_id r) =
                  Some (if status r = Active \<and> \<not> completed s
                        then s\<lparr>spots_left := spots_left s + 1\<rparr> else s))
          \<and> (\<forall>m. find_member st (user_name r) = Some m \<longrightarrow>
                members (snd (admin_cancel_reservation_refund st rid)) =
                  (if status r = Attended
                   then map (\<lambda>x. if m_id x = m_id m then x\<lparr>credits := credits x + 1\<rparr> else x)
                          (members st)
                   else members st)
              \<and> find_member (snd (admin_cancel_reservation_refund st rid)) (user_name r) =
                  Some (if status r = Attended then m\<lparr>credits := credits m + 1\<rparr> else m))
          \<and> (find_member st (user_name r) = None \<longrightarrow>
                members (snd (admin_cancel_reservation_refund st rid)) = members st))"
proof -
  have k: "keys_ok st" and ck: "checks_ok st" and rf: "refs_ok st" and se: "seats_ok st"
    using c by (simp_all add: consistent_def)
  have rmem: "r \<in> set (reservations st)" and rid: "r_id r = rid"
    using get_reservation_mem [OF r] by simp_all
  have "session_id r \<in> s_id ` set (sessions st)"
    using rf rmem by (auto simp: refs_ok_def list_all_iff)
  then obtain s where s: "get_session st (session_id r) = Some s"
    by (cases "get_session st (session_id r)") (auto simp: get_session_def find_None_iff)
  have smem: "s \<in> set (sessions st)" and sid: "s_id s = session_id r"
    using get_session_mem [OF s] by simp_all
  let ?st1 = "case find_member st (user_name r) of None \<Rightarrow> st
              | Some m \<Rightarrow> if status r = Attended then add_credits (m_id m) 1 st else st"
  have ses1: "sessions ?st1 = sessions st" and res1: "reservations ?st1 = reservations st"
    by (auto simp: write_defs split: option.splits)
  have s1: "get_session ?st1 (session_id r) = Some s"
    using s by (simp add: get_session_def ses1)
  let ?st2 = "if \<not> completed s then add_spots (session_id r) 1 ?st1 else ?st1"
  let ?fin = "set_status (r_id r) Canceled (if status r = Active then ?st2 else ?st1)"
  have ok: "commit (Flash Success Refunded) st ?fin = (Flash Success Refunded, ?fin)"
  proof (cases "status r = Active \<and> \<not> completed s")
    case True
    have "spots_left s + active_count st (s_id s) \<le> capacity s"
      using se smem by (auto simp: seats_ok_def list_all_iff)
    moreover have "0 < active_count st (s_id s)"
      using active_count_pos [OF rmem] True sid by simp
    moreover have "session_ck s" using ck smem by (auto simp: checks_ok_def list_all_iff)
    ultimately have "session_ck (s\<lparr>spots_left := spots_left s + 1\<rparr>)"
      by (simp add: session_ck_def)
    then show ?thesis
      by (rule commit_one_row [OF k s]) (use True in \<open>simp add: write_defs ses1\<close>)
  next
    case False
    then have "sessions ?fin = sessions st"
      by (auto simp: write_defs split: option.splits)
    then show ?thesis by (simp add: commit_def list_all_iff)
  qed
  have run: "status r \<noteq> Canceled \<Longrightarrow>
             admin_cancel_reservation_refund st rid = (Flash Success Refunded, ?fin)"
    unfolding admin_cancel_reservation_refund_def r option.case Let_def s1
    using ok by (simp split: if_splits)
  have canc: "status r = Canceled \<Longrightarrow>
             admin_cancel_reservation_refund st rid = (Flash Info AlreadyCanceled, st)"
    by (simp add: admin_cancel_reservation_refund_def r)
  have resf: "reservations ?fin =
              map (\<lambda>x. if r_id x = rid then x\<lparr>status := Canceled\<rparr> else x) (reservations st)"
    by (auto simp: write_defs rid split: option.splits)
  have getr: "get_reservation ?fin rid = Some (r\<lparr>status := Canceled\<rparr>)"
  proof -
    have "find (\<lambda>y. r_id y = rid)
            (map (\<lambda>x. if r_id x = rid then x\<lparr>status := Canceled\<rparr> else x) (reservations st))
          = map_option (\<lambda>x. if r_id x = rid then x\<lparr>status := Canceled\<rparr> else x)
              (find (\<lambda>y. r_id y = rid) (reservations st))"
      by (rule find_key_map) simp
    then show ?thesis using r rid unfolding get_reservation_def resf by simp
  qed
  have sesf: "sessions ?fin =
                  (if status r = Active \<and> \<not> completed s
                   then map (\<lambda>x. if s_id x = session_id r then x\<lparr>spots_left := spots_left x + 1\<rparr>
                                  else x) (sessions st)
                   else sessions st)"
    by (auto simp: write_defs split: option.splits)
  have gets: "get_session ?fin (session_id r) =
                  Some (if status r = Active \<and> \<not> completed s
                        then s\<lparr>spots_left := spots_left s + 1\<rparr> else s)"
  proof (cases "status r = Active \<and> \<not> completed s")
    case True
    have "find (\<lambda>y. s_id y = session_id r)
            (map (\<lambda>x. if s_id x = session_id r then x\<lparr>spots_left := spots_left x + 1\<rparr> else x)
               (sessions st))
          = map_option (\<lambda>x. if s_id x = session_id r then x\<lparr>spots_left := spots_left x + 1\<rparr> else x)
              (find (\<lambda>y. s_id y = session_id r) (sessions st))"
      by (rule find_key_map) simp
    then show ?thesis using True s sid unfolding get_session_def sesf by simp
  next
    case False
    then show ?thesis using s unfolding get_session_def sesf by auto
  qed
  have memf: "\<And>m. find_member st (user_name r) = Some m \<Longrightarrow>
                members ?fin =
                  (if status r = Attended
                   then map (\<lambda>x. if m_id x = m_id m then x\<lparr>credits := credits x + 1\<rparr> else x)
                          (members st)
                   else members st)"
    by (auto simp: write_defs)
  have memn: "find_member st (user_name r) = None \<Longrightarrow> members ?fin = members st"
    by (auto simp: write_defs)
  have fm: "\<And>m. find_member st (user_name r) = Some m \<Longrightarrow>
              find_member ?fin (user_name r) =
                  Some (if status r = Attended then m\<lparr>credits := credits m + 1\<rparr> else m)"
  proof -
    fix m assume m: "find_member st (user_name r) = Some m"
    have "members ?fin = members (if status r = Attended then add_credits (m_id m) 1 st else st)"
      using m by (auto simp: write_defs)
    then have "find_member ?fin (user_name r)
               = find_member (if status r = Attended then add_credits (m_id m) 1 st else st) (user_name r)"
      by (simp add: find_member_def)
    then show "find_member ?fin (user_name r) =
                  Some (if status r = Attended then m\<lparr>credits := credits m + 1\<rparr> else m)"
      using find_member_add_credits [OF m, of 1] m by simp
  qed
  show ?thesis
  proof (cases "status r = Canceled")
    case True
    then show ?thesis using canc by simp
  next
    case False
    note run [OF False]
    then show ?thesis using False resf getr sesf gets memf memn fm s
      by (simp del: split_paired_All)
  qed
qed

theorem admin_cancel_refund_witness:
  "fst (admin_cancel_reservation_refund swept_store 1) = Flash Success Refunded
   \<and> get_reservation (snd (admin_cancel_reservation_refund swept_store 1)) 1
       = Some \<lparr>r_id = 1, user_name = ''Ann Lee'', session_id = 1, status = Canceled\<rparr>
   \<and> find_member (snd (admin_cancel_reservation_refund swept_store 1)) ''Ann Lee''
       = Some \<lparr>m_id = 1, full_name = ''Ann Lee'', credits = 1\<rparr>
   \<and> sessions (snd (admin_cancel_reservation_refund swept_store 1)) = sessions swept_store"
proof -
  have c: "consistent swept_store" by code_simp
  have r: "get_reservation swept_store 1
             = Some \<lparr>r_id = 1, user_name = ''Ann Lee'', session_id = 1, status = Attended\<rparr>"
    by code_simp
  have m: "find_member swept_store ''Ann Lee'' = Some \<lparr>m_id = 1, full_name = ''Ann Lee'', credits = 0\<rparr>"
    by code_simp
  show ?thesis using admin_cancel_refund [OF c r] m by auto
qed

section \<open>The settlement sweep\<close>

text \<open>
  Claim C3. In a store with unique keys, valid CHECK constraints and times of day: the
  sweep selects exactly the sessions that are not completed and whose start (date, time)
  is strictly before the clock reading, and it goes through. Afterwards exactly the selected
  sessions have become completed; exactly the active reservations of the selected sessions
  have become attended; and every member's credits are the old credits, lowered by one
  for each settled reservation whose name finds this member, but only while the balance is
  positive (a member at 0 is passed over, nothing fails). Nothing else changes, and with no
  session selected the store stays as it is.
\<close>

theorem sweep_effect:
  assumes k: "keys_ok st" and c: "checks_ok st" and t: "times_ok st"
  shows "to_close st now = filter (\<lambda>s. \<not> completed s \<and> is_past s now) (sessions st)
       \<and> fst (close_past_sessions_and_apply_attendance st now) = Proceed
       \<and> sessions (snd (close_past_sessions_and_apply_attendance st now)) =
           map (\<lambda>s. if \<not> completed s \<and> is_past s now then s\<lparr>completed := True\<rparr> else s)
             (sessions st)
       \<and> reservations (snd (close_past_sessions_and_apply_attendance st now)) =
           map (\<lambda>r. if session_id r \<in> s_id ` set (to_close st now) \<and> status r = Active
                     then r\<lparr>status := Attended\<rparr> else r) (reservations st)
       \<and> members (snd (close_past_sessions_and_apply_attendance st now)) =
           map (\<lambda>m. m\<lparr>credits := debited (credits m)
                        (length (filter (\<lambda>r. owner_id (members st) r = Some (m_id m))
                                   (settled st now)))\<rparr>) (members st)
       \<and> (to_close st now = [] \<longrightarrow>
            close_past_sessions_and_apply_attendance st now = (Proceed, st))"
proof -
  let ?tc = "to_close st now"
  let ?new = "fold close_session ?tc st"
  have ds: "distinct (map s_id (sessions st))" and dr: "distinct (map r_id (reservations st))"
    and dm: "distinct (map m_id (members st))"
    using k by (simp_all add: keys_ok_def)
  have tc: "?tc = filter (\<lambda>s. \<not> completed s \<and> is_past s now) (sessions st)"
    unfolding to_close_def
  proof (rule filter_cong [OF refl])
    fix s assume "s \<in> set (sessions st)"
    then have "0 \<le> s_time s" "s_time s < DAY"
      using t by (auto simp: times_ok_def list_all_iff)
    from before_iff_past [OF this, of now]
    show "(\<not> completed s \<and>
            (s_date s < date_of now \<or> (s_date s = date_of now \<and> s_time s < time_of now)))
          = (\<not> completed s \<and> is_past s now)"
      by simp
  qed
  have inj: "inj_on s_id (set (sessions st))" using ds by (simp add: distinct_map)
  have ses: "sessions ?new =
           map (\<lambda>s. if \<not> completed s \<and> is_past s now then s\<lparr>completed := True\<rparr> else s)
             (sessions st)"
    unfolding sessions_fold_close
  proof (rule map_cong [OF refl])
    fix x assume x: "x \<in> set (sessions st)"
    have "s_id x \<in> s_id ` set ?tc \<longleftrightarrow> x \<in> set ?tc"
    proof
      assume "s_id x \<in> s_id ` set ?tc"
      then obtain y where y: "y \<in> set ?tc" "s_id y = s_id x" by auto
      then have "y \<in> set (sessions st)" by (simp add: to_close_def)
      with inj x y(2) have "y = x" by (auto dest: inj_onD)
      with y(1) show "x \<in> set ?tc" by simp
    qed simp
    also have "\<dots> \<longleftrightarrow> \<not> completed x \<and> is_past x now"
      using x by (simp add: tc)
    finally show "(if s_id x \<in> s_id ` set ?tc then x\<lparr>completed := True\<rparr> else x)
                = (if \<not> completed x \<and> is_past x now then x\<lparr>completed := True\<rparr> else x)"
      by simp
  qed
  have com: "commit Proceed st ?new = (Proceed, ?new)"
  proof (rule commit_ok)
    show "list_all (\<lambda>s. s \<in> set (sessions st) \<or> session_ck s) (sessions ?new)"
      unfolding ses list_all_iff using c
      by (auto simp: checks_ok_def list_all_iff session_ck_def)
  qed
  have run: "close_past_sessions_and_apply_attendance st now = (Proceed, ?new)"
    by (cases "?tc = []") (simp_all add: close_past_sessions_and_apply_attendance_def com)
  have dtc: "distinct (map s_id ?tc)"
    unfolding to_close_def using ds by (rule distinct_map_filter)
  have res: "reservations ?new =
           map (\<lambda>r. if session_id r \<in> s_id ` set ?tc \<and> status r = Active
                     then r\<lparr>status := Attended\<rparr> else r) (reservations st)"
    by (rule reservations_fold_close [OF dr])
  have mem: "members ?new =
           map (\<lambda>m. m\<lparr>credits := debited (credits m)
                        (length (filter (\<lambda>r. owner_id (members st) r = Some (m_id m))
                                   (settled st now)))\<rparr>) (members st)"
    unfolding members_fold_close [OF dr dtc] settled_def by (rule fold_debit [OF dm])
  have nil: "?tc = [] \<longrightarrow> close_past_sessions_and_apply_attendance st now = (Proceed, st)"
    by (simp add: close_past_sessions_and_apply_attendance_def)
  show ?thesis
    unfolding run fst_conv snd_conv using tc ses res mem nil [unfolded run] by blast
qed

theorem sweep_effect_witness:
  "fst (close_past_sessions_and_apply_attendance demo_store (combine 11 0)) = Proceed
   \<and> to_close demo_store (combine 11 0)
       = filter (\<lambda>s. \<not> completed s \<and> is_past s (combine 11 0)) (sessions demo_store)
   \<and> members (snd (close_past_sessions_and_apply_attendance demo_store (combine 11 0))) =
       map (\<lambda>m. m\<lparr>credits := debited (credits m)
                    (length (filter (\<lambda>r. owner_id (members demo_store) r = Some (m_id m))
                               (settled demo_store (combine 11 0))))\<rparr>) (members demo_store)
   \<and> find_member (snd (close_past_sessions_and_apply_attendance demo_store (combine 11 0))) ''Ann Lee''
       = Some \<lparr>m_id = 1, full_name = ''Ann Lee'', credits = 0\<rparr>
   \<and> get_reservation (snd (close_past_sessions_and_apply_attendance demo_store (combine 11 0))) 1
       = Some \<lparr>r_id = 1, user_name = ''Ann Lee'', session_id = 1, status = Attended\<rparr>"
proof -
  have k: "keys_ok demo_store" and c: "checks_ok demo_store" and t: "times_ok demo_store"
    by code_simp+
  have m: "find_member (snd (close_past_sessions_and_apply_attendance demo_store (combine 11 0)))
             ''Ann Lee'' = Some \<lparr>m_id = 1, full_name = ''Ann Lee'', credits = 0\<rparr>"
    by code_simp
  have r: "get_reservation (snd (close_past_sessions_and_apply_attendance demo_store (combine 11 0))) 1
       = Some \<lparr>r_id = 1, user_name = ''Ann Lee'', session_id = 1, status = Attended\<rparr>"
    by code_simp
  show ?thesis using sweep_effect [OF k c t, of "combine 11 0"] m r by blast
qed

end
